theory Spec2Isabelle
  imports Complex_Main "HOL-Library.Log_Nat"
begin

section \<open>Python values used by the inventory tool\<close>

text \<open>
  The exceptions that the modelled code paths can meet. \<open>is_Exception\<close>, \<open>is_OSError\<close>
  and \<open>is_PermissionError\<close> follow Python's class hierarchy: an \<open>except C\<close> clause
  catches \<open>C\<close> and its subclasses. \<open>KeyboardInterrupt\<close> derives from BaseException only.
\<close>

datatype exn =
    PermissionError | FileNotFoundError | OSError | AttributeError
  | CalledProcessError | TimeoutExpired | UnicodeDecodeError
  | OverflowError | ValueError | IndexError | KeyboardInterrupt

fun is_PermissionError :: "exn \<Rightarrow> bool" where
  "is_PermissionError PermissionError = True"
| "is_PermissionError _ = False"

fun is_OSError :: "exn \<Rightarrow> bool" where
  "is_OSError PermissionError = True"
| "is_OSError FileNotFoundError = True"
| "is_OSError OSError = True"
| "is_OSError _ = False"

fun is_Exception :: "exn \<Rightarrow> bool" where
  "is_Exception KeyboardInterrupt = False"
| "is_Exception _ = True"

text \<open>
  A Python float is an IEEE double: a finite value (a dyadic rational, kept as \<open>rat\<close>),
  a not-a-number, or an infinity.
\<close>

datatype pyfloat = Finite rat | NaN | PosInf | NegInf

subsection \<open>\<open>str\<close> of an integer\<close>

text \<open>\<open>str_digits\<close> writes a nonnegative integer in decimal, most significant digit first.\<close>

definition digit :: "int \<Rightarrow> char" where
  "digit d = ''0123456789'' ! nat d"

function str_digits :: "int \<Rightarrow> string" where
  "str_digits n = (if n < 10 then [digit n] else str_digits (n div 10) @ [digit (n mod 10)])"
  by pat_completeness auto
termination
  by (relation "measure nat") auto

declare str_digits.simps [simp del]

definition str_int :: "int \<Rightarrow> string" where
  "str_int i = (if i < 0 then CHR ''-'' # str_digits (- i) else str_digits i)"

subsection \<open>\<open>float(n)\<close> of an integer\<close>

text \<open>
  \<open>float(n)\<close> rounds the integer to the nearest double, ties to even: integers of at most
  53 bits are exact, longer ones keep their 53 leading bits, rounded. A result of
  magnitude \<open>2 ^ 1024\<close> or more does not exist: Python raises OverflowError.
\<close>

definition float_of_int :: "int \<Rightarrow> exn + rat" where
  "float_of_int n =
     (let a = \<bar>n\<bar>; bl = bitlen a in
      if bl \<le> 53 then Inr (of_int n)
      else
        let sh = nat (bl - 53);
            q = a div 2 ^ sh;
            r = a mod 2 ^ sh;
            half = 2 ^ (sh - 1);
            m = (if r > half \<or> (r = half \<and> odd q) then q + 1 else q);
            v = m * 2 ^ sh
        in if v \<ge> 2 ^ 1024 then Inl OverflowError else Inr (of_int (sgn n * v)))"

subsection \<open>The format \<open>.2f\<close>\<close>

text \<open>
  \<open>f"{x:.2f}"\<close> prints the decimal with two fraction digits nearest to the exact value
  of the double, a tie going to the even neighbour (\<open>0.125\<close> prints as \<open>0.12\<close>).
\<close>

definition round_half_even :: "rat \<Rightarrow> int" where
  "round_half_even x =
     (let fl = \<lfloor>x\<rfloor>; d = x - of_int fl in
      if d < 1 / 2 then fl
      else if d > 1 / 2 then fl + 1
      else if even fl then fl else fl + 1)"

definition format_2f :: "rat \<Rightarrow> string" where
  "format_2f x =
     (let h = round_half_even (\<bar>x\<bar> * 100) in
      (if x < 0 then ''-'' else '''') @ str_digits (h div 100) @ ''.''
        @ [digit (h mod 100 div 10), digit (h mod 10)])"

section \<open>\<open>human_bytes\<close>\<close>

definition symbols :: "string list" where
  "symbols = [''B'', ''KB'', ''MB'', ''GB'', ''TB'']"

text \<open>
  The loop \<open>while f >= 1024 and i < len(symbols) - 1: f /= 1024; i += 1\<close>. Dividing a
  double that is at least 1024 by 1024 only lowers its exponent, so the quotient is exact.
\<close>

function hb_loop :: "rat \<Rightarrow> nat \<Rightarrow> rat \<times> nat" where
  "hb_loop f i =
     (if f \<ge> 1024 \<and> i < length symbols - 1 then hb_loop (f / 1024) (i + 1) else (f, i))"
  by pat_completeness auto
termination
  by (relation "measure (\<lambda>(f, i). length symbols - 1 - i)") auto

declare hb_loop.simps [simp del]

definition human_bytes :: "int \<Rightarrow> exn + string" where
  "human_bytes n =
     (case float_of_int n of
        Inl e \<Rightarrow> Inl e
      | Inr f0 \<Rightarrow>
          (case hb_loop f0 0 of
             (f, i) \<Rightarrow>
               if i < length symbols then Inr (format_2f f @ '' '' @ symbols ! i)
               else Inl IndexError))"

section \<open>Strings\<close>

text \<open>
  A Python \<open>str\<close> is a sequence of code points; the model keeps the code points below 256,
  one \<open>char\<close> each. \<open>isspace\<close> is \<open>str.isspace\<close> on that range (what \<open>strip()\<close> removes) and
  \<open>is_linebreak\<close> the line boundaries of \<open>str.splitlines\<close>.
\<close>

abbreviation LF :: char where "LF \<equiv> CHR 0x0A"
abbreviation CR :: char where "CR \<equiv> CHR 0x0D"
abbreviation DQ :: char where "DQ \<equiv> CHR 0x22"

definition isspace :: "char \<Rightarrow> bool" where
  "isspace c = (of_char c \<in> {9, 10, 11, 12, 13, 28, 29, 30, 31, 32, 133, 160 :: nat})"

definition is_linebreak :: "char \<Rightarrow> bool" where
  "is_linebreak c = (of_char c \<in> {10, 11, 12, 13, 28, 29, 30, 133 :: nat})"

definition str_strip :: "string \<Rightarrow> string" where
  "str_strip s = rev (dropWhile isspace (rev (dropWhile isspace s)))"

text \<open>\<open>s.split(sep)\<close> for a one-character separator: never empty, \<open>"".split(",") == [""]\<close>.\<close>

fun str_split :: "char \<Rightarrow> string \<Rightarrow> string list" where
  "str_split sep [] = [[]]"
| "str_split sep (c # cs) =
     (if c = sep then [] # str_split sep cs
      else (case str_split sep cs of x # xs \<Rightarrow> (c # x) # xs | [] \<Rightarrow> [[c]]))"

text \<open>\<open>s.splitlines()\<close>: \<open>\r\n\<close> is one boundary, and a final boundary opens no empty line.\<close>

fun splitlines_from :: "string \<Rightarrow> string \<Rightarrow> string list" where
  "splitlines_from cur [] = (if cur = [] then [] else [rev cur])"
| "splitlines_from cur (c # cs) =
     (if c = CR then
        (case cs of
           d # ds \<Rightarrow> if d = LF then rev cur # splitlines_from [] ds
                     else rev cur # splitlines_from [] cs
         | [] \<Rightarrow> rev cur # splitlines_from [] cs)
      else if is_linebreak c then rev cur # splitlines_from [] cs
      else splitlines_from (c # cur) cs)"

definition str_splitlines :: "string \<Rightarrow> string list" where
  "str_splitlines s = splitlines_from [] s"

definition char_lower :: "char \<Rightarrow> char" where
  "char_lower c =
     (let k = (of_char c :: nat) in
      if (65 \<le> k \<and> k \<le> 90) \<or> (192 \<le> k \<and> k \<le> 222 \<and> k \<noteq> 215)
      then char_of (k + 32) else c)"

definition str_lower :: "string \<Rightarrow> string" where
  "str_lower s = map char_lower s"

fun str_join :: "string \<Rightarrow> string list \<Rightarrow> string" where
  "str_join sep [] = []"
| "str_join sep [x] = x"
| "str_join sep (x # y # ys) = x @ sep @ str_join sep (y # ys)"

section \<open>Floats in the exporter\<close>

text \<open>\<open>x == y\<close> on floats: a not-a-number equals nothing, itself included.\<close>

fun float_eq :: "pyfloat \<Rightarrow> pyfloat \<Rightarrow> bool" where
  "float_eq NaN _ = False"
| "float_eq _ NaN = False"
| "float_eq x y = (x = y)"

text \<open>
  \<open>int(x)\<close> on a float truncates toward zero; it raises ValueError on a not-a-number and
  OverflowError on an infinity.
\<close>

fun int_of_float :: "pyfloat \<Rightarrow> exn + int" where
  "int_of_float (Finite q) = Inr (if 0 \<le> q then \<lfloor>q\<rfloor> else \<lceil>q\<rceil>)"
| "int_of_float NaN = Inl ValueError"
| "int_of_float PosInf = Inl OverflowError"
| "int_of_float NegInf = Inl OverflowError"

section \<open>The inventory record\<close>

text \<open>
  The dictionary that \<open>collect_inventory\<close> returns, one record for each nested dictionary,
  with the keys as field names. The byte counts and the percentage of a disk entry carry
  the prefix \<open>disk_\<close>, since the memory dictionary has keys of the same names; an absent
  marker is \<open>None\<close>.
\<close>

record os_info =
  system :: string
  release :: string
  version :: string
  machine :: string
  processor :: string

record cpu_info =
  physical_cores :: "int option"
  logical_cpus :: "int option"
  loadavg_1m :: "pyfloat option"
  loadavg_5m :: "pyfloat option"
  loadavg_15m :: "pyfloat option"
  freq_mhz :: "pyfloat option"

record memory_info =
  total_bytes :: int
  available_bytes :: int
  percent_used :: pyfloat

record disk_entry =
  device :: string
  fstype :: string
  disk_total_bytes :: int
  disk_used_bytes :: int
  disk_free_bytes :: int
  disk_percent_used :: pyfloat

record nic_entry =
  iface :: string
  is_up :: "bool option"
  ipv4 :: "string list"
  ipv6 :: "string list"

record pkg_summary =
  manager :: string
  count :: int

record inventory =
  timestamp :: string
  hostname :: string
  fqdn :: string
  os :: os_info
  cpu :: cpu_info
  memory :: memory_info
  uptime_seconds :: pyfloat
  disks :: "disk_entry list"
  network :: "nic_entry list"
  packages :: "pkg_summary option"
  tags :: "string list"

section \<open>The host\<close>

text \<open>
  What \<open>platform\<close>, \<open>psutil\<close>, \<open>os\<close>, \<open>socket\<close>, \<open>time\<close> and \<open>subprocess\<close> answer on the
  host where the tool runs, one field for each call the tool makes. A call that the tool
  guards with \<open>try\<close> answers with an exception or a value.
\<close>

record uname_result =
  uname_system :: string
  uname_release :: string
  uname_version :: string
  uname_machine :: string
  uname_processor :: string

record svmem =
  mem_total :: int
  mem_available :: int
  mem_percent :: pyfloat

record sdiskpart =
  part_device :: string
  part_mountpoint :: string
  part_fstype :: string

record sdiskusage =
  usage_total :: int
  usage_used :: int
  usage_free :: int
  usage_percent :: pyfloat

datatype address_family = AF_INET | AF_INET6 | AF_OTHER

record snicaddr =
  family :: address_family
  address :: string

record snicstats =
  isup :: bool

record env =
  uname :: uname_result
  virtual_memory :: svmem
  getloadavg :: "exn + pyfloat \<times> pyfloat \<times> pyfloat"
  disk_partitions :: "sdiskpart list"
  disk_usage :: "string \<Rightarrow> exn + sdiskusage"
  net_if_addrs :: "(string \<times> snicaddr list) list"
  net_if_stats :: "string \<Rightarrow> snicstats option"
  path_exists :: "string \<Rightarrow> bool"
  check_output :: "string list \<Rightarrow> nat \<Rightarrow> exn + string"
  utcnow_isoformat :: string
  gethostname :: string
  getfqdn :: string
  cpu_count :: "bool \<Rightarrow> int option"
  cpu_freq_current :: "pyfloat option"
  time_time :: rat
  boot_time :: "exn + rat"
  linesep :: string

section \<open>\<open>get_uptime_seconds\<close>\<close>

text \<open>
  \<open>time.time() - psutil.boot_time()\<close>, or a not-a-number when reading the boot time raises
  an \<open>Exception\<close>. Both clock readings are finite and the rounding of their difference is
  left out.
\<close>

definition get_uptime_seconds :: "env \<Rightarrow> exn + pyfloat" where
  "get_uptime_seconds h =
     (case boot_time h of
        Inr b \<Rightarrow> Inr (Finite (time_time h - b))
      | Inl e \<Rightarrow> if is_Exception e then Inr NaN else Inl e)"

section \<open>\<open>collect_inventory\<close>\<close>

subsection \<open>Load averages\<close>

definition load_averages ::
  "env \<Rightarrow> exn + pyfloat option \<times> pyfloat option \<times> pyfloat option" where
  "load_averages h =
     (case getloadavg h of
        Inr (l1, l5, l15) \<Rightarrow> Inr (Some l1, Some l5, Some l15)
      | Inl e \<Rightarrow>
          if e = AttributeError \<or> is_OSError e then Inr (None, None, None) else Inl e)"

subsection \<open>Disks\<close>

definition disk_of :: "sdiskpart \<Rightarrow> sdiskusage \<Rightarrow> disk_entry" where
  "disk_of p u =
     \<lparr>device = part_device p, fstype = part_fstype p,
      disk_total_bytes = usage_total u, disk_used_bytes = usage_used u,
      disk_free_bytes = usage_free u, disk_percent_used = usage_percent u\<rparr>"

text \<open>
  The loop over the partitions, \<open>acc\<close> being the list \<open>disks\<close> built so far: a
  PermissionError of the usage query skips the mount, any other exception leaves the loop
  and the function.
\<close>

fun enum_disks ::
  "(string \<Rightarrow> exn + sdiskusage) \<Rightarrow> sdiskpart list \<Rightarrow> disk_entry list \<Rightarrow> exn + disk_entry list"
where
  "enum_disks du [] acc = Inr acc"
| "enum_disks du (p # ps) acc =
     (case du (part_mountpoint p) of
        Inr u \<Rightarrow> enum_disks du ps (acc @ [disk_of p u])
      | Inl e \<Rightarrow> if is_PermissionError e then enum_disks du ps acc else Inl e)"

subsection \<open>Network interfaces\<close>

text \<open>The inner loop over the addresses of one interface, updating its entry.\<close>

fun add_addrs :: "nic_entry \<Rightarrow> snicaddr list \<Rightarrow> nic_entry" where
  "add_addrs entry [] = entry"
| "add_addrs entry (a # as) =
     (if family a = AF_INET then add_addrs (entry\<lparr>ipv4 := ipv4 entry @ [address a]\<rparr>) as
      else if family a = AF_INET6 then
        add_addrs (entry\<lparr>ipv6 := ipv6 entry @ [hd (str_split (CHR ''%'') (address a))]\<rparr>) as
      else add_addrs entry as)"

definition nic_of :: "(string \<Rightarrow> snicstats option) \<Rightarrow> string \<Rightarrow> snicaddr list \<Rightarrow> nic_entry" where
  "nic_of stats ifname addr_list =
     add_addrs
       \<lparr>iface = ifname,
        is_up = (case stats ifname of Some st \<Rightarrow> Some (isup st) | None \<Rightarrow> None),
        ipv4 = [], ipv6 = []\<rparr>
       addr_list"

fun enum_nics ::
  "(string \<Rightarrow> snicstats option) \<Rightarrow> (string \<times> snicaddr list) list \<Rightarrow> nic_entry list \<Rightarrow> nic_entry list"
where
  "enum_nics stats [] nics = nics"
| "enum_nics stats ((ifname, addr_list) # rest) nics =
     enum_nics stats rest (nics @ [nic_of stats ifname addr_list])"

subsection \<open>Packages\<close>

text \<open>
  The package counter asks the file system and runs a command; both are recorded in the
  order they happen, \<open>CheckOutput\<close> with the command and its timeout in seconds.
\<close>

datatype event = PathExists string | CheckOutput "string list" nat

definition count_lines :: "string \<Rightarrow> int" where
  "count_lines out = int (length (filter (\<lambda>l. str_strip l \<noteq> []) (str_splitlines out)))"

definition dpkg_command :: "string list" where
  "dpkg_command = [''dpkg-query'', ''-f'', ''${binary:Package}'' @ [LF], ''-W'']"

definition rpm_command :: "string list" where
  "rpm_command = [''rpm'', ''-qa'']"

definition query_manager ::
  "env \<Rightarrow> string \<Rightarrow> string list \<Rightarrow> event list \<times> (exn + pkg_summary option)" where
  "query_manager h name cmd =
     ([CheckOutput cmd 10],
      case check_output h cmd 10 of
        Inl e \<Rightarrow> Inl e
      | Inr out \<Rightarrow> Inr (Some \<lparr>manager = name, count = count_lines out\<rparr>))"

text \<open>The body of the \<open>try\<close>: the events, and the exception raised or the summary.\<close>

definition probe_managers :: "env \<Rightarrow> event list \<times> (exn + pkg_summary option)" where
  "probe_managers h =
     (if path_exists h ''/usr/bin/dpkg-query'' then
        (case query_manager h ''dpkg'' dpkg_command of
           (ev, r) \<Rightarrow> (PathExists ''/usr/bin/dpkg-query'' # ev, r))
      else if path_exists h ''/usr/bin/rpm'' then
        (case query_manager h ''rpm'' rpm_command of
           (ev, r) \<Rightarrow> (PathExists ''/usr/bin/dpkg-query'' # PathExists ''/usr/bin/rpm'' # ev, r))
      else ([PathExists ''/usr/bin/dpkg-query'', PathExists ''/usr/bin/rpm''], Inr None))"

definition count_packages :: "env \<Rightarrow> event list \<times> (exn + pkg_summary option)" where
  "count_packages h =
     (if str_lower (uname_system (uname h)) = ''linux'' then
        (case probe_managers h of
           (ev, Inl e) \<Rightarrow> if is_Exception e then (ev, Inr None) else (ev, Inl e)
         | (ev, Inr p) \<Rightarrow> (ev, Inr p))
      else ([], Inr None))"

subsection \<open>The record\<close>

definition collect_inventory :: "env \<Rightarrow> string list option \<Rightarrow> event list \<times> (exn + inventory)" where
  "collect_inventory h tgs =
     (case load_averages h of
        Inl e \<Rightarrow> ([], Inl e)
      | Inr (load1, load5, load15) \<Rightarrow>
     (case enum_disks (disk_usage h) (disk_partitions h) [] of
        Inl e \<Rightarrow> ([], Inl e)
      | Inr ds \<Rightarrow>
     (case count_packages h of
        (ev, Inl e) \<Rightarrow> (ev, Inl e)
      | (ev, Inr pkg) \<Rightarrow>
     (case get_uptime_seconds h of
        Inl e \<Rightarrow> (ev, Inl e)
      | Inr up \<Rightarrow>
         (ev, Inr
           \<lparr>timestamp = utcnow_isoformat h @ ''Z'',
            hostname = gethostname h,
            fqdn = getfqdn h,
            os = \<lparr>system = uname_system (uname h), release = uname_release (uname h),
                  version = uname_version (uname h), machine = uname_machine (uname h),
                  processor = uname_processor (uname h)\<rparr>,
            cpu = \<lparr>physical_cores = cpu_count h False, logical_cpus = cpu_count h True,
                   loadavg_1m = load1, loadavg_5m = load5, loadavg_15m = load15,
                   freq_mhz = cpu_freq_current h\<rparr>,
            memory = \<lparr>total_bytes = mem_total (virtual_memory h),
                      available_bytes = mem_available (virtual_memory h),
                      percent_used = mem_percent (virtual_memory h)\<rparr>,
            uptime_seconds = up,
            disks = ds,
            network = enum_nics (net_if_stats h) (net_if_addrs h) [],
            packages = pkg,
            tags = (case tgs of None \<Rightarrow> [] | Some ts \<Rightarrow> ts)\<rparr>)))))"

section \<open>The exporters\<close>

text \<open>
  A text stream opened without a \<open>newline\<close> argument writes \<open>os.linesep\<close> for every
  \<open>\n\<close> it is given. What a run leaves behind is the destination and the characters
  that reached it.
\<close>

definition text_write :: "string \<Rightarrow> string \<Rightarrow> string" where
  "text_write sep s = concat (map (\<lambda>c. if c = LF then sep else [c]) s)"

datatype dest = Stdout | File string

text \<open>
  \<open>open(out_path, "w") if out_path else os.fdopen(1, "w")\<close>: an empty path is false.
  Opening the destination is taken to succeed; a path that cannot be written makes
  \<open>open\<close> raise, which is left out.
\<close>

definition dest_of :: "string option \<Rightarrow> dest" where
  "dest_of out_path = (case out_path of None \<Rightarrow> Stdout | Some p \<Rightarrow> if p = [] then Stdout else File p)"

subsection \<open>The \<open>csv\<close> writer\<close>

text \<open>
  \<open>csv.DictWriter\<close> in its default dialect: fields separated by commas, rows ended by
  \<open>\r\n\<close>, a field quoted only when it holds a comma, a quote or one of \<open>\r\<close>, \<open>\n\<close>, a
  quote inside a quoted field doubled. \<open>None\<close> is written as the empty string, a string as
  it is, anything else through \<open>str\<close>.
\<close>

datatype cell = CNone | CStr string | CInt int | CFloat pyfloat

fun cell_text :: "(pyfloat \<Rightarrow> string) \<Rightarrow> cell \<Rightarrow> string" where
  "cell_text fr CNone = []"
| "cell_text fr (CStr s) = s"
| "cell_text fr (CInt i) = str_int i"
| "cell_text fr (CFloat x) = fr x"

definition csv_special :: "char \<Rightarrow> bool" where
  "csv_special c = (c = CHR '','' \<or> c = DQ \<or> c = CR \<or> c = LF)"

definition csv_escape :: "string \<Rightarrow> string" where
  "csv_escape s = concat (map (\<lambda>c. if c = DQ then [DQ, DQ] else [c]) s)"

definition csv_field :: "string \<Rightarrow> string" where
  "csv_field s = (if list_ex csv_special s then DQ # csv_escape s @ [DQ] else s)"

definition csv_writerow :: "string list \<Rightarrow> string" where
  "csv_writerow fs =
     (if fs = [[]] then [DQ, DQ] else str_join '','' (map csv_field fs)) @ [CR, LF]"

definition dict_writerow :: "(pyfloat \<Rightarrow> string) \<Rightarrow> string list \<Rightarrow> (string \<times> cell) list \<Rightarrow> string" where
  "dict_writerow fr fieldnames row =
     csv_writerow (map (\<lambda>k. cell_text fr (case map_of row k of Some c \<Rightarrow> c | None \<Rightarrow> CStr [])) fieldnames)"

subsection \<open>\<open>write_csv\<close>\<close>

definition uptime_cell :: "pyfloat \<Rightarrow> exn + int" where
  "uptime_cell u = (if float_eq u u then int_of_float u else Inr 0)"

definition csv_row :: "inventory \<Rightarrow> exn + (string \<times> cell) list" where
  "csv_row d =
     (case human_bytes (total_bytes (memory d)) of
        Inl e \<Rightarrow> Inl e
      | Inr mem \<Rightarrow>
     (case uptime_cell (uptime_seconds d) of
        Inl e \<Rightarrow> Inl e
      | Inr up \<Rightarrow>
          Inr [(''timestamp'', CStr (timestamp d)),
               (''hostname'', CStr (hostname d)),
               (''fqdn'', CStr (fqdn d)),
               (''os_system'', CStr (system (os d))),
               (''os_release'', CStr (release (os d))),
               (''logical_cpus'', (case logical_cpus (cpu d) of None \<Rightarrow> CNone | Some k \<Rightarrow> CInt k)),
               (''mem_total'', CStr mem),
               (''mem_used_pct'', CFloat (percent_used (memory d))),
               (''uptime_seconds'', CInt up),
               (''disk_count'', CInt (int (length (disks d)))),
               (''iface_count'', CInt (int (length (network d)))),
               (''tags'', CStr (str_join '','' (tags d)))]))"

text \<open>
  \<open>fr\<close> is \<open>repr\<close> on floats, which the writer applies to \<open>mem_used_pct\<close>; the shortest
  digits that \<open>repr\<close> prints are not modelled, so it is a parameter. A failing
  \<open>human_bytes\<close> or \<open>int\<close> raises while the row is built, before anything is opened.
\<close>

definition write_csv ::
  "env \<Rightarrow> (pyfloat \<Rightarrow> string) \<Rightarrow> inventory \<Rightarrow> string option \<Rightarrow> exn + dest \<times> string" where
  "write_csv h fr d out_path =
     (case csv_row d of
        Inl e \<Rightarrow> Inl e
      | Inr row \<Rightarrow>
          Inr (dest_of out_path,
               text_write (linesep h)
                 (csv_writerow (map fst row) @ dict_writerow fr (map fst row) row)))"

text \<open>
  The keys of the dictionary \<open>row\<close> in the order they are written, which is the order of
  the columns, and the twelve texts of the data row once the memory size \<open>m\<close> and the whole
  seconds \<open>k\<close> are known.
\<close>

definition header_names :: "string list" where
  "header_names =
     [''timestamp'', ''hostname'', ''fqdn'', ''os_system'', ''os_release'', ''logical_cpus'',
      ''mem_total'', ''mem_used_pct'', ''uptime_seconds'', ''disk_count'', ''iface_count'',
      ''tags'']"

definition row_fields :: "(pyfloat \<Rightarrow> string) \<Rightarrow> inventory \<Rightarrow> string \<Rightarrow> int \<Rightarrow> string list" where
  "row_fields fr d m k =
     [timestamp d, hostname d, fqdn d, system (os d), release (os d),
      (case logical_cpus (cpu d) of None \<Rightarrow> [] | Some c \<Rightarrow> str_int c),
      m, fr (percent_used (memory d)), str_int k,
      str_int (int (length (disks d))), str_int (int (length (network d))),
      str_join '','' (tags d)]"

section \<open>\<open>main\<close>\<close>

datatype fmt = Csv | Json

record args =
  arg_format :: fmt
  arg_out :: "string option"
  arg_pretty :: bool
  arg_tags :: "string option"

definition parse_tags :: "string option \<Rightarrow> string list" where
  "parse_tags a =
     (case a of
        None \<Rightarrow> []
      | Some s \<Rightarrow>
          if s = [] then []
          else map str_strip (filter (\<lambda>t. str_strip t \<noteq> []) (str_split (CHR '','') s)))"

text \<open>
  The JSON branch of \<open>main\<close>, given \<open>dump\<close>, the string that \<open>json.dumps\<close> returned:
  \<open>f.write(dump + "\n")\<close> to the file, or \<open>print(dump)\<close>, which writes \<open>dump\<close> and then
  its own \<open>"\n"\<close> to the standard output.
\<close>

definition write_json :: "env \<Rightarrow> string \<Rightarrow> string option \<Rightarrow> dest \<times> string" where
  "write_json h dump out_path =
     (case dest_of out_path of
        File p \<Rightarrow> (File p, text_write (linesep h) (dump @ [LF]))
      | Stdout \<Rightarrow> (Stdout, text_write (linesep h) dump @ text_write (linesep h) [LF]))"

text \<open>
  \<open>dumps\<close> is \<open>json.dumps\<close> on the record, with its \<open>indent\<close> argument; like \<open>repr\<close> it
  belongs to the interpreter and is a parameter.
\<close>

definition main ::
  "env \<Rightarrow> (pyfloat \<Rightarrow> string) \<Rightarrow> (inventory \<Rightarrow> nat option \<Rightarrow> string) \<Rightarrow> args
     \<Rightarrow> event list \<times> (exn + dest \<times> string)" where
  "main h fr dumps a =
     (case collect_inventory h (Some (parse_tags (arg_tags a))) of
        (ev, Inl e) \<Rightarrow> (ev, Inl e)
      | (ev, Inr d) \<Rightarrow>
          (case arg_format a of
             Json \<Rightarrow>
               (ev, Inr (write_json h (dumps d (if arg_pretty a then Some 2 else None)) (arg_out a)))
           | Csv \<Rightarrow> (ev, write_csv h fr d (arg_out a))))"

section \<open>Reading CSV text\<close>

text \<open>
  What the lines and fields of a CSV text are: the records a reader finds in it. Outside
  quotes a comma ends a field and \<open>\r\n\<close>, \<open>\r\<close> or \<open>\n\<close> ends a record; inside quotes
  every character belongs to the field and a doubled quote stands for one quote. A line
  without characters is a record without fields. The arguments of \<open>csv_read\<close> are the
  quoting state, the field being read (reversed), the fields of the record so far
  (reversed) and the text left.
\<close>

definition record_of :: "string \<Rightarrow> string list \<Rightarrow> string list" where
  "record_of cur fs = (if cur = [] \<and> fs = [] then [] else rev (rev cur # fs))"

fun csv_read :: "bool \<Rightarrow> string \<Rightarrow> string list \<Rightarrow> string \<Rightarrow> string list list" where
  "csv_read q cur fs [] = (if cur = [] \<and> fs = [] then [] else [record_of cur fs])"
| "csv_read q cur fs (c # cs) =
     (if q then
        (if c = DQ then
           (case cs of
              d # ds \<Rightarrow> if d = DQ then csv_read True (DQ # cur) fs ds
                        else csv_read False cur fs cs
            | [] \<Rightarrow> csv_read False cur fs cs)
         else csv_read True (c # cur) fs cs)
      else if c = DQ then csv_read True cur fs cs
      else if c = CHR '','' then csv_read False [] (rev cur # fs) cs
      else if c = CR then
        (case cs of
           d # ds \<Rightarrow> if d = LF then record_of cur fs # csv_read False [] [] ds
                     else record_of cur fs # csv_read False [] [] cs
         | [] \<Rightarrow> record_of cur fs # csv_read False [] [] cs)
      else if c = LF then record_of cur fs # csv_read False [] [] cs
      else csv_read False (c # cur) fs cs)"

definition csv_records :: "string \<Rightarrow> string list list" where
  "csv_records s = csv_read False [] [] s"

section \<open>Example hosts\<close>

text \<open>
  A Linux host with dpkg: three mounts, of which \<open>/mnt/secure\<close> refuses the usage query,
  and three interfaces, of which \<open>tun0\<close> is missing from the statistics table.
\<close>

definition example_host :: env where
  "example_host =
     \<lparr>uname = \<lparr>uname_system = ''Linux'', uname_release = ''6.1.0'', uname_version = ''#1 SMP'',
               uname_machine = ''x86_64'', uname_processor = []\<rparr>,
      virtual_memory = \<lparr>mem_total = 17179869184, mem_available = 8589934592,
                        mem_percent = Finite 50\<rparr>,
      getloadavg = Inr (Finite (1 / 2), Finite (1 / 4), Finite (1 / 8)),
      disk_partitions =
        [\<lparr>part_device = ''/dev/sda1'', part_mountpoint = ''/'', part_fstype = ''ext4''\<rparr>,
         \<lparr>part_device = ''/dev/sdb1'', part_mountpoint = ''/mnt/secure'', part_fstype = ''ext4''\<rparr>,
         \<lparr>part_device = ''/dev/sdc1'', part_mountpoint = ''/data'', part_fstype = ''xfs''\<rparr>],
      disk_usage = (\<lambda>m.
        if m = ''/'' then
          Inr \<lparr>usage_total = 1000, usage_used = 250, usage_free = 750, usage_percent = Finite 25\<rparr>
        else if m = ''/data'' then
          Inr \<lparr>usage_total = 4000, usage_used = 3000, usage_free = 1000, usage_percent = Finite 75\<rparr>
        else if m = ''/mnt/secure'' then Inl PermissionError
        else Inl FileNotFoundError),
      net_if_addrs =
        [(''lo'', [\<lparr>family = AF_INET, address = ''127.0.0.1''\<rparr>,
                   \<lparr>family = AF_INET6, address = ''::1''\<rparr>]),
         (''eth0'', [\<lparr>family = AF_INET, address = ''10.0.0.5''\<rparr>,
                     \<lparr>family = AF_INET6, address = ''fe80::1%eth0''\<rparr>,
                     \<lparr>family = AF_OTHER, address = ''aa:bb:cc:dd:ee:ff''\<rparr>]),
         (''tun0'', [])],
      net_if_stats = (\<lambda>n.
        if n = ''lo'' then Some \<lparr>isup = True\<rparr>
        else if n = ''eth0'' then Some \<lparr>isup = False\<rparr>
        else None),
      path_exists = (\<lambda>p. p = ''/usr/bin/dpkg-query''),
      check_output = (\<lambda>cmd t.
        if cmd = dpkg_command then Inr (''bash'' @ [LF] @ ''coreutils'' @ [LF, LF] @ ''zlib1g'' @ [LF])
        else Inl FileNotFoundError),
      utcnow_isoformat = ''2024-01-01T00:00:00'',
      gethostname = ''host1'',
      getfqdn = ''host1.example.org'',
      cpu_count = (\<lambda>logical. Some (if logical then 8 else 4)),
      cpu_freq_current = Some (Finite 2400),
      time_time = 1700000000,
      boot_time = Inr 1699990000,
      linesep = [LF]\<rparr>"

text \<open>
  \<open>repr\<close> on the floats of the examples: a whole number of magnitude below \<open>10 ^ 16\<close>
  prints as the integer followed by \<open>.0\<close>, and the three other values have names. On a
  float with a fraction this function is not \<open>repr\<close>.
\<close>

fun repr_whole :: "pyfloat \<Rightarrow> string" where
  "repr_whole (Finite q) = str_int \<lfloor>q\<rfloor> @ ''.0''"
| "repr_whole NaN = ''nan''"
| "repr_whole PosInf = ''inf''"
| "repr_whole NegInf = ''-inf''"

text \<open>The record that \<open>collect_inventory\<close> builds on the example host for the tags \<open>lab\<close> and \<open>linux\<close>.\<close>

definition example_record :: inventory where
  "example_record =
     \<lparr>timestamp = ''2024-01-01T00:00:00Z'', hostname = ''host1'', fqdn = ''host1.example.org'',
      os = \<lparr>system = ''Linux'', release = ''6.1.0'', version = ''#1 SMP'',
             machine = ''x86_64'', processor = []\<rparr>,
      cpu = \<lparr>physical_cores = Some 4, logical_cpus = Some 8,
              loadavg_1m = Some (Finite (1 / 2)), loadavg_5m = Some (Finite (1 / 4)),
              loadavg_15m = Some (Finite (1 / 8)), freq_mhz = Some (Finite 2400)\<rparr>,
      memory = \<lparr>total_bytes = 17179869184, available_bytes = 8589934592,
                 percent_used = Finite 50\<rparr>,
      uptime_seconds = Finite 10000,
      disks =
        [\<lparr>device = ''/dev/sda1'', fstype = ''ext4'', disk_total_bytes = 1000,
           disk_used_bytes = 250, disk_free_bytes = 750, disk_percent_used = Finite 25\<rparr>,
         \<lparr>device = ''/dev/sdc1'', fstype = ''xfs'', disk_total_bytes = 4000,
           disk_used_bytes = 3000, disk_free_bytes = 1000, disk_percent_used = Finite 75\<rparr>],
      network =
        [\<lparr>iface = ''lo'', is_up = Some True, ipv4 = [''127.0.0.1''], ipv6 = [''::1'']\<rparr>,
         \<lparr>iface = ''eth0'', is_up = Some False, ipv4 = [''10.0.0.5''], ipv6 = [''fe80::1'']\<rparr>,
         \<lparr>iface = ''tun0'', is_up = None, ipv4 = [], ipv6 = []\<rparr>],
      packages = Some \<lparr>manager = ''dpkg'', count = 3\<rparr>,
      tags = [''lab'', ''linux'']\<rparr>"

text \<open>
  A Windows host: no \<open>os.getloadavg\<close>, no package manager, one drive, and \<open>\r\n\<close> as the line
  separator. \<open>windows_record\<close> is the record collected there for the tags \<open>lab\<close> and \<open>linux\<close>,
  and \<open>windows_csv\<close> its CSV export: header and data row, each ended by \<open>\r\r\n\<close>.
\<close>

abbreviation BSL :: char where "BSL \<equiv> CHR 0x5C"

definition windows_host :: env where
  "windows_host =
     \<lparr>uname = \<lparr>uname_system = ''Windows'', uname_release = ''10'', uname_version = ''10.0.19045'',
               uname_machine = ''AMD64'', uname_processor = ''Intel64 Family 6''\<rparr>,
      virtual_memory = \<lparr>mem_total = 17179869184, mem_available = 8589934592,
                        mem_percent = Finite 50\<rparr>,
      getloadavg = Inl AttributeError,
      disk_partitions =
        [\<lparr>part_device = ''C:'' @ [BSL], part_mountpoint = ''C:'' @ [BSL], part_fstype = ''NTFS''\<rparr>],
      disk_usage = (\<lambda>m.
        if m = ''C:'' @ [BSL] then
          Inr \<lparr>usage_total = 1000, usage_used = 250, usage_free = 750, usage_percent = Finite 25\<rparr>
        else Inl FileNotFoundError),
      net_if_addrs =
        [(''Ethernet'', [\<lparr>family = AF_OTHER, address = ''AA-BB-CC-DD-EE-FF''\<rparr>,
                         \<lparr>family = AF_INET, address = ''192.168.1.20''\<rparr>])],
      net_if_stats = (\<lambda>n. if n = ''Ethernet'' then Some \<lparr>isup = True\<rparr> else None),
      path_exists = (\<lambda>p. False),
      check_output = (\<lambda>cmd t. Inl FileNotFoundError),
      utcnow_isoformat = ''2024-01-01T00:00:00'',
      gethostname = ''pc1'',
      getfqdn = ''pc1.example.org'',
      cpu_count = (\<lambda>logical. Some (if logical then 8 else 4)),
      cpu_freq_current = Some (Finite 2400),
      time_time = 1700000000,
      boot_time = Inr 1699990000,
      linesep = [CR, LF]\<rparr>"

definition windows_record :: inventory where
  "windows_record =
     \<lparr>timestamp = ''2024-01-01T00:00:00Z'', hostname = ''pc1'', fqdn = ''pc1.example.org'',
      os = \<lparr>system = ''Windows'', release = ''10'', version = ''10.0.19045'',
             machine = ''AMD64'', processor = ''Intel64 Family 6''\<rparr>,
      cpu = \<lparr>physical_cores = Some 4, logical_cpus = Some 8,
              loadavg_1m = None, loadavg_5m = None, loadavg_15m = None,
              freq_mhz = Some (Finite 2400)\<rparr>,
      memory = \<lparr>total_bytes = 17179869184, available_bytes = 8589934592,
                 percent_used = Finite 50\<rparr>,
      uptime_seconds = Finite 10000,
      disks =
        [\<lparr>device = ''C:'' @ [BSL], fstype = ''NTFS'', disk_total_bytes = 1000,
           disk_used_bytes = 250, disk_free_bytes = 750, disk_percent_used = Finite 25\<rparr>],
      network =
        [\<lparr>iface = ''Ethernet'', is_up = Some True, ipv4 = [''192.168.1.20''], ipv6 = []\<rparr>],
      packages = None,
      tags = [''lab'', ''linux'']\<rparr>"

definition windows_csv :: string where
  "windows_csv =
     ''timestamp,hostname,fqdn,os_system,os_release,logical_cpus,mem_total,mem_used_pct,''
     @ ''uptime_seconds,disk_count,iface_count,tags'' @ [CR, CR, LF]
     @ ''2024-01-01T00:00:00Z,pc1,pc1.example.org,Windows,10,8,16.00 GB,50.0,10000,1,1,''
     @ [DQ] @ ''lab,linux'' @ [DQ] @ [CR, CR, LF]"

section \<open>Properties of \<open>human_bytes\<close>\<close>

lemma float_of_int_exact: "\<bar>n\<bar> < 2 ^ 53 \<Longrightarrow> float_of_int n = Inr (of_int n)"
  unfolding float_of_int_def Let_def using bitlen_le_iff_power[of "\<bar>n\<bar>" 53] by simp

lemma div_lower:
  fixes n k :: int
  assumes "0 < k" and "c * k \<le> n" shows "c \<le> n div k"
proof -
  have "(c * k) div k \<le> n div k" using assms by (intro zdiv_mono1)
  then show ?thesis using assms by simp
qed

lemma div_upper:
  fixes n k :: int
  assumes "0 < k" and "n < d * k" shows "n div k < d"
proof -
  have "n div k * k \<le> n" using assms(1)
    by (metis div_mult_mod_eq le_add_same_cancel1 pos_mod_sign)
  then have "n div k * k < d * k" using assms by linarith
  then show ?thesis using assms(1) by (simp add: mult_less_cancel_right)
qed

lemma float_parts:
  fixes n :: int
  assumes lo: "2 ^ 53 \<le> n"
  defines "sh \<equiv> nat (bitlen n - 53)"
  shows "1 \<le> sh" and "2 ^ (52 + sh) \<le> n" and "n < 2 ^ (53 + sh)"
    and "2 ^ 52 \<le> n div 2 ^ sh" and "n div 2 ^ sh < 2 ^ 53"
proof -
  have npos: "0 < n" using lo by (smt (verit) zero_less_power)
  have "\<not> bitlen n \<le> 53" using lo bitlen_le_iff_power[of n 53] by simp
  then have bl: "bitlen n = 53 + int sh" and sh1: "1 \<le> sh" by (simp_all add: sh_def)
  show "1 \<le> sh" by fact
  have a: "nat (bitlen n - 1) = 52 + sh" "nat (bitlen n) = 53 + sh" using bl by simp_all
  show b1: "2 ^ (52 + sh) \<le> n" and b2: "n < 2 ^ (53 + sh)"
    using bitlen_bounds[OF npos] a by simp_all
  show "2 ^ 52 \<le> n div 2 ^ sh"
    using b1 by (intro div_lower) (simp_all add: power_add)
  show "n div 2 ^ sh < 2 ^ 53"
    using b2 by (intro div_upper) (simp_all add: power_add)
qed

lemma float_of_int_rounded:
  assumes "\<not> bitlen \<bar>n\<bar> \<le> 53"
    and "sh = nat (bitlen \<bar>n\<bar> - 53)"
    and "q = \<bar>n\<bar> div 2 ^ sh"
    and "r = \<bar>n\<bar> mod 2 ^ sh"
    and "m = (if r > 2 ^ (sh - 1) \<or> (r = 2 ^ (sh - 1) \<and> odd q) then q + 1 else q)"
  shows "float_of_int n =
    (if m * 2 ^ sh \<ge> 2 ^ 1024 then Inl OverflowError else Inr (of_int (sgn n * (m * 2 ^ sh))))"
  unfolding float_of_int_def Let_def assms(2-5) using assms(1) by (simp only: if_False)

lemma float_of_int_big:
  fixes n :: int
  assumes lo: "2 ^ 53 \<le> n" and hi: "n < 2 ^ 1024 - 2 ^ 970"
  shows "\<exists>v. float_of_int n = Inr v \<and> 2 ^ 53 \<le> v"
proof -
  define sh where "sh = nat (bitlen n - 53)"
  define q where "q = n div 2 ^ sh"
  define r where "r = n mod 2 ^ sh"
  define m where "m = (if r > 2 ^ (sh - 1) \<or> (r = 2 ^ (sh - 1) \<and> odd q) then q + 1 else q)"
  note fp = float_parts[OF lo, folded sh_def, folded q_def]
  have npos: "0 < n" using lo by (smt (verit) zero_less_power)
  have nbl: "\<not> bitlen n \<le> 53" using lo bitlen_le_iff_power[of n 53] by simp
  have "n < 2 ^ 1024" using hi by (smt (verit) zero_less_power)
  then have "bitlen n \<le> 1024" using bitlen_le_iff_power[of n 1024] by simp
  then have sh971: "sh \<le> 971" by (simp add: sh_def)
  have nqr: "n = q * 2 ^ sh + r" unfolding q_def r_def by (rule div_mult_mod_eq[symmetric])
  have r0: "0 \<le> r" and rlt: "r < 2 ^ sh" by (simp_all add: r_def)
  have mq: "q \<le> m" "m \<le> q + 1" by (simp_all add: m_def)
  have msmall: "m * 2 ^ sh < (2::int) ^ 1024"
  proof (cases "sh = 971")
    case True
    have half: "(2::int) ^ (sh - 1) = 2 ^ 970" using True by simp
    have lt: "q * 2 ^ 971 + r < 2 ^ 1024 - 2 ^ 970"
      using hi nqr True by simp
    have "m \<le> 2 ^ 53 - 1"
    proof (cases "m = q")
      case True
      then show ?thesis using fp(5) by simp
    next
      case False
      then have mq1: "m = q + 1" and rh: "2 ^ 970 \<le> r"
        using half by (auto simp: m_def split: if_splits)
      have "q \<noteq> 2 ^ 53 - 1"
      proof
        assume "q = 2 ^ 53 - 1"
        then show False using lt rh by simp
      qed
      then show ?thesis using mq1 fp(5) by simp
    qed
    then have "m * 2 ^ 971 \<le> (2 ^ 53 - 1) * 2 ^ 971"
      by (intro mult_right_mono) simp_all
    then show ?thesis using True by simp
  next
    case False
    then have "sh \<le> 970" using sh971 by simp
    then have "(2::int) ^ sh \<le> 2 ^ 970" by (intro power_increasing) simp_all
    moreover have "m \<le> 2 ^ 53" using mq fp(5) by simp
    ultimately have "m * 2 ^ sh \<le> 2 ^ 53 * 2 ^ 970"
      by (intro mult_mono) simp_all
    then show ?thesis by simp
  qed
  have mbig: "(2::int) ^ 53 \<le> m * 2 ^ sh"
  proof -
    have "(2::int) ^ 52 * 2 ^ 1 \<le> m * 2 ^ sh"
      using mq fp(4) fp(1) by (intro mult_mono power_increasing) simp_all
    then show ?thesis by simp
  qed
  have abs_n: "\<bar>n\<bar> = n" and sgn_n: "sgn n = 1" using npos by simp_all
  have "float_of_int n =
      (if m * 2 ^ sh \<ge> 2 ^ 1024 then Inl OverflowError else Inr (of_int (sgn n * (m * 2 ^ sh))))"
    by (rule float_of_int_rounded[where q = q and r = r])
       (simp_all only: abs_n nbl sh_def q_def r_def m_def not_False_eq_True)
  then have "float_of_int n = Inr (of_int (m * 2 ^ sh))"
    using msmall by (simp only: sgn_n mult_1 not_less[symmetric] if_False not_True_eq_False)
  moreover have "(2::rat) ^ 53 \<le> of_int (m * 2 ^ sh)"
    using mbig by (metis of_int_le_iff of_int_numeral of_int_power)
  ultimately show ?thesis by blast
qed

lemma float_of_int_overflow:
  fixes n :: int
  assumes big: "2 ^ 1024 - 2 ^ 970 \<le> n"
  shows "float_of_int n = Inl OverflowError"
proof -
  define sh where "sh = nat (bitlen n - 53)"
  define q where "q = n div 2 ^ sh"
  define r where "r = n mod 2 ^ sh"
  define m where "m = (if r > 2 ^ (sh - 1) \<or> (r = 2 ^ (sh - 1) \<and> odd q) then q + 1 else q)"
  have lo: "2 ^ 53 \<le> n" using big by simp
  note fp = float_parts[OF lo, folded sh_def, folded q_def]
  have npos: "0 < n" using lo by (smt (verit) zero_less_power)
  have nbl: "\<not> bitlen n \<le> 53" using lo bitlen_le_iff_power[of n 53] by simp
  have "\<not> n < 2 ^ 1023" using big by simp
  then have "\<not> bitlen n \<le> 1023" using bitlen_le_iff_power[of n 1023] by simp
  then have sh971: "971 \<le> sh" by (simp add: sh_def)
  have nqr: "n = q * 2 ^ sh + r" unfolding q_def r_def by (rule div_mult_mod_eq[symmetric])
  have r0: "0 \<le> r" and rlt: "r < 2 ^ sh" by (simp_all add: r_def)
  have mq: "q \<le> m" by (simp add: m_def)
  have mbig: "(2::int) ^ 1024 \<le> m * 2 ^ sh"
  proof (cases "sh = 971")
    case True
    have half: "(2::int) ^ (sh - 1) = 2 ^ 970" using True by simp
    have ge: "2 ^ 1024 - 2 ^ 970 \<le> q * 2 ^ 971 + r" and rlt': "r < 2 ^ 971"
      using big nqr rlt True by simp_all
    have "\<not> q \<le> 2 ^ 53 - 2"
    proof
      assume "q \<le> 2 ^ 53 - 2"
      then have "q * 2 ^ 971 \<le> (2 ^ 53 - 2) * 2 ^ 971" by (intro mult_right_mono) simp_all
      then show False using ge rlt' by simp
    qed
    then have qeq: "q = 2 ^ 53 - 1" using fp(5) by simp
    then have "odd q" by simp
    moreover have "2 ^ 970 \<le> r" using ge qeq by simp
    ultimately have "m = q + 1" using half by (auto simp: m_def)
    then show ?thesis using qeq True by simp
  next
    case False
    then have "972 \<le> sh" using sh971 by simp
    then have "(2::int) ^ 972 \<le> 2 ^ sh" by (intro power_increasing) simp_all
    moreover have "2 ^ 52 \<le> m" using mq fp(4) by simp
    ultimately have "2 ^ 52 * 2 ^ 972 \<le> m * 2 ^ sh"
      by (intro mult_mono) simp_all
    then show ?thesis by simp
  qed
  have abs_n: "\<bar>n\<bar> = n" using npos by simp
  have "float_of_int n =
      (if m * 2 ^ sh \<ge> 2 ^ 1024 then Inl OverflowError else Inr (of_int (sgn n * (m * 2 ^ sh))))"
    by (rule float_of_int_rounded[where q = q and r = r])
       (simp_all only: abs_n nbl sh_def q_def r_def m_def not_False_eq_True)
  then show ?thesis using mbig by (simp only: if_True)
qed

lemma hb_loop_step: "1024 \<le> f \<Longrightarrow> i < 4 \<Longrightarrow> hb_loop f i = hb_loop (f / 1024) (i + 1)"
  by (subst hb_loop.simps) (simp add: symbols_def)

lemma hb_loop_stop: "f < 1024 \<or> 4 \<le> i \<Longrightarrow> hb_loop f i = (f, i)"
  by (subst hb_loop.simps) (auto simp add: symbols_def)

lemma hb_loop_index: "i \<le> 4 \<Longrightarrow> snd (hb_loop f i) \<le> 4"
proof (induction f i rule: hb_loop.induct)
  case (1 f i)
  show ?case
  proof (cases "1024 \<le> f \<and> i < 4")
    case True
    then have "hb_loop f i = hb_loop (f / 1024) (i + 1)" by (simp add: hb_loop_step)
    moreover have "snd (hb_loop (f / 1024) (i + 1)) \<le> 4"
      using True by (intro "1.IH") (simp_all add: symbols_def)
    ultimately show ?thesis by simp
  next
    case False
    then have "hb_loop f i = (f, i)" by (intro hb_loop_stop) auto
    then show ?thesis using "1.prems" by simp
  qed
qed

lemma hb_loop_saturates:
  assumes "2 ^ 50 \<le> f"
  shows "hb_loop f 0 = (f / 2 ^ 40, 4)"
proof -
  have "hb_loop f 0 = hb_loop (f / 1024) 1"
    using hb_loop_step[of f 0] assms by simp
  also have "\<dots> = hb_loop (f / 1024 / 1024) 2"
    using hb_loop_step[of "f / 1024" 1] assms by (simp add: eval_nat_numeral)
  also have "\<dots> = hb_loop (f / 1024 / 1024 / 1024) 3"
    using hb_loop_step[of "f / 1024 / 1024" 2] assms by (simp add: eval_nat_numeral)
  also have "\<dots> = hb_loop (f / 1024 / 1024 / 1024 / 1024) 4"
    using hb_loop_step[of "f / 1024 / 1024 / 1024" 3] assms by (simp add: eval_nat_numeral)
  also have "\<dots> = (f / 1024 / 1024 / 1024 / 1024, 4)" by (simp add: hb_loop_stop)
  finally show ?thesis by simp
qed

lemma round_half_even_ge: "\<lfloor>x\<rfloor> \<le> round_half_even x"
  by (simp add: round_half_even_def Let_def)

lemma float_of_int_total:
  assumes "0 \<le> n" and "n < 2 ^ 1024 - 2 ^ 970"
  shows "\<exists>v. float_of_int n = Inr v \<and> (2 ^ 50 \<le> n \<longrightarrow> 2 ^ 50 \<le> v)"
proof (cases "n < 2 ^ 53")
  case True
  then have "float_of_int n = Inr (of_int n)" using assms(1) by (intro float_of_int_exact) simp
  moreover have "2 ^ 50 \<le> n \<longrightarrow> (2::rat) ^ 50 \<le> of_int n"
    by (metis of_int_le_iff of_int_numeral of_int_power)
  ultimately show ?thesis by blast
next
  case False
  then obtain v where "float_of_int n = Inr v" "2 ^ 53 \<le> v"
    using float_of_int_big[of n] assms(2) by auto
  then show ?thesis by (intro exI[of _ v]) auto
qed

lemma human_bytes_returns:
  assumes "0 \<le> n" and "n < 2 ^ 1024 - 2 ^ 970"
  shows "\<exists>s. human_bytes n = Inr s"
proof -
  obtain v where v: "float_of_int n = Inr v"
    using float_of_int_total[OF assms] by auto
  obtain f i where fi: "hb_loop v 0 = (f, i)" by (cases "hb_loop v 0")
  have "i \<le> 4" using hb_loop_index[of 0 v] fi by simp
  then have "i < length symbols" by (simp add: symbols_def)
  then show ?thesis using v fi by (simp add: human_bytes_def)
qed

text \<open>
  Claim C10, as amended. For every integer \<open>n\<close> with \<open>0 \<le> n < 2 ^ 1024 - 2 ^ 970\<close>
  (the nonnegative integers that \<open>float\<close> converts), \<open>human_bytes\<close> returns a string
  made of a number, a space and a unit symbol taken from B, KB, MB, GB, TB: the index into
  the symbol table stays in range. From \<open>1024 ^ 5\<close> on the unit stays TB, the value printed
  is at least 1024 and so is the integer part of its rendering.
\<close>

theorem human_bytes_units:
  assumes "0 \<le> n" and "n < 2 ^ 1024 - 2 ^ 970"
  shows "\<exists>f u. human_bytes n = Inr (format_2f f @ '' '' @ u) \<and> u \<in> set symbols \<and>
           (1024 ^ 5 \<le> n \<longrightarrow> u = ''TB'' \<and> 1024 \<le> f \<and>
              (\<exists>k d1 d2. format_2f f = str_digits k @ ''.'' @ [d1, d2] \<and> 1024 \<le> k))"
proof -
  obtain v where v: "float_of_int n = Inr v" and vbig: "2 ^ 50 \<le> n \<Longrightarrow> 2 ^ 50 \<le> v"
    using float_of_int_total[OF assms] by auto
  obtain f i where fi: "hb_loop v 0 = (f, i)" by (cases "hb_loop v 0")
  have i4: "i \<le> 4" using hb_loop_index[of 0 v] fi by simp
  then have ilen: "i < length symbols" by (simp add: symbols_def)
  have hb: "human_bytes n = Inr (format_2f f @ '' '' @ symbols ! i)"
    using v fi ilen by (simp add: human_bytes_def)
  have mem: "symbols ! i \<in> set symbols" using ilen by simp
  have sat: "symbols ! i = ''TB'' \<and> 1024 \<le> f \<and>
              (\<exists>k d1 d2. format_2f f = str_digits k @ ''.'' @ [d1, d2] \<and> 1024 \<le> k)"
    if big: "1024 ^ 5 \<le> n"
  proof -
    have "2 ^ 50 \<le> v" using big vbig by simp
    then have "hb_loop v 0 = (v / 2 ^ 40, 4)" and f1024: "1024 \<le> v / 2 ^ 40"
      by (simp_all add: hb_loop_saturates)
    then have f: "f = v / 2 ^ 40" and i: "i = 4" using fi by simp_all
    have fge: "1024 \<le> f" using f f1024 by simp
    then have "(102400::int) \<le> \<lfloor>\<bar>f\<bar> * 100\<rfloor>" by (simp add: le_floor_iff)
    then have "102400 \<le> round_half_even (\<bar>f\<bar> * 100)"
      using round_half_even_ge[of "\<bar>f\<bar> * 100"] by linarith
    then have "1024 \<le> round_half_even (\<bar>f\<bar> * 100) div 100" by presburger
    moreover have "\<not> f < 0" using fge by simp
    ultimately have "\<exists>k d1 d2. format_2f f = str_digits k @ ''.'' @ [d1, d2] \<and> 1024 \<le> k"
      by (simp add: format_2f_def Let_def) blast
    then show ?thesis using fge i by (simp add: symbols_def)
  qed
  show ?thesis using hb mem sat by blast
qed

theorem human_bytes_units_witness:
  "(0::int) \<le> 1024 ^ 5 \<and> (1024::int) ^ 5 < 2 ^ 1024 - 2 ^ 970 \<and>
   (\<exists>f u. human_bytes (1024 ^ 5) = Inr (format_2f f @ '' '' @ u) \<and> u \<in> set symbols \<and>
           ((1024::int) ^ 5 \<le> 1024 ^ 5 \<longrightarrow> u = ''TB'' \<and> 1024 \<le> f \<and>
              (\<exists>k d1 d2. format_2f f = str_digits k @ ''.'' @ [d1, d2] \<and> 1024 \<le> k)))"
  using human_bytes_units[of "1024 ^ 5"] by simp

text \<open>
  Claim C3. The four reference equations of \<open>human_bytes\<close>: 0 bytes, one kilobyte, one and
  a half kilobytes, one terabyte.
\<close>

theorem human_bytes_reference:
  "human_bytes 0 = Inr ''0.00 B'' \<and> human_bytes 1024 = Inr ''1.00 KB'' \<and>
   human_bytes 1536 = Inr ''1.50 KB'' \<and> human_bytes 1099511627776 = Inr ''1.00 TB''"
  by code_simp

text \<open>
  Claim C10 as stated fails at \<open>n = 2 ^ 1024\<close>: the conversion \<open>float(n)\<close> raises
  OverflowError before the loop is reached, and no string is returned.
\<close>

theorem human_bytes_overflow: "human_bytes (2 ^ 1024) = Inl OverflowError"
  using float_of_int_overflow[of "2 ^ 1024"] by (simp add: human_bytes_def)

section \<open>Properties of the tag parser\<close>

lemma str_split_nonempty: "str_split sep s \<noteq> []"
  by (induction s) (auto split: list.splits)

lemma str_join_Cons: "xs \<noteq> [] \<Longrightarrow> str_join sep (x # xs) = x @ sep @ str_join sep xs"
  by (cases xs) simp_all

lemma str_split_join: "str_join [sep] (str_split sep s) = s"
proof (induction s)
  case Nil
  show ?case by simp
next
  case (Cons c cs)
  show ?case
  proof (cases "c = sep")
    case True
    then show ?thesis using Cons by (simp add: str_join_Cons str_split_nonempty)
  next
    case False
    obtain x xs where sp: "str_split sep cs = x # xs"
      using str_split_nonempty[of sep cs] by (cases "str_split sep cs") auto
    have "str_join [sep] ((c # x) # xs) = c # str_join [sep] (x # xs)"
      by (cases xs) simp_all
    then show ?thesis using False Cons sp by simp
  qed
qed

lemma str_split_no_sep: "seg \<in> set (str_split sep s) \<Longrightarrow> sep \<notin> set seg"
proof (induction s arbitrary: seg)
  case Nil
  then show ?case by simp
next
  case (Cons c cs)
  show ?case
  proof (cases "c = sep")
    case True
    then show ?thesis using Cons by auto
  next
    case False
    obtain x xs where sp: "str_split sep cs = x # xs"
      using str_split_nonempty[of sep cs] by (cases "str_split sep cs") auto
    then have "seg = c # x \<or> seg \<in> set xs" using Cons.prems False by simp
    then show ?thesis using Cons.IH[of x] Cons.IH[of seg] sp False by auto
  qed
qed

lemma dropWhile_hd: "dropWhile P xs \<noteq> [] \<Longrightarrow> \<not> P (hd (dropWhile P xs))"
  by (metis hd_dropWhile)

lemma dropWhile_all_iff: "(\<forall>x \<in> set (dropWhile P xs). P x) \<longleftrightarrow> (\<forall>x \<in> set xs. P x)"
proof
  assume a: "\<forall>x \<in> set (dropWhile P xs). P x"
  have "dropWhile P xs = []"
  proof (rule ccontr)
    assume n: "dropWhile P xs \<noteq> []"
    then have "hd (dropWhile P xs) \<in> set (dropWhile P xs)" by simp
    then show False using a dropWhile_hd[OF n] by blast
  qed
  then show "\<forall>x \<in> set xs. P x" by (simp add: dropWhile_eq_Nil_conv)
next
  assume "\<forall>x \<in> set xs. P x"
  then show "\<forall>x \<in> set (dropWhile P xs). P x" by (meson set_dropWhileD)
qed

lemma str_strip_empty_iff: "str_strip t = [] \<longleftrightarrow> list_all isspace t"
  by (simp add: str_strip_def dropWhile_eq_Nil_conv dropWhile_all_iff list_all_iff)

lemma str_strip_ends:
  assumes "str_strip t \<noteq> []"
  shows "\<not> isspace (hd (str_strip t))" and "\<not> isspace (last (str_strip t))"
proof -
  let ?a = "dropWhile isspace t"
  let ?b = "dropWhile isspace (rev ?a)"
  have b: "?b \<noteq> []" using assms by (simp add: str_strip_def)
  have a: "?a \<noteq> []"
  proof
    assume "?a = []"
    then have "?b = []" by (simp only: rev.simps(1) dropWhile.simps(1))
    then show False using b by simp
  qed
  have "\<not> isspace (hd ?b)" using b by (rule dropWhile_hd)
  then show "\<not> isspace (last (str_strip t))" using b by (simp add: str_strip_def last_rev)
  have "\<not> isspace (hd ?a)" using a by (rule dropWhile_hd)
  have "\<exists>ys. rev ?a = ys @ ?b" by (metis takeWhile_dropWhile_id)
  then obtain ys where ys: "rev ?a = ys @ ?b" by blast
  then have "last ?b = last (rev ?a)" using b by (metis last_appendR)
  then have "last ?b = hd ?a" using a by (simp only: last_rev)
  then show "\<not> isspace (hd (str_strip t))"
    using b \<open>\<not> isspace (hd ?a)\<close> by (simp add: str_strip_def hd_rev)
qed

text \<open>
  Claim C6. The segments of the \<open>--tags\<close> argument are its pieces between commas (joined
  with commas they give the argument back, and none holds a comma). The tags are the
  segments that are not all whitespace, each trimmed, in the order of the segments: every
  tag is non-empty and neither starts nor ends with whitespace. No argument gives no tags,
  and \<open>"lab, linux, "\<close> gives \<open>["lab", "linux"]\<close>.
\<close>

theorem parse_tags_spec:
  "str_join '','' (str_split (CHR '','') s) = s \<and>
   (\<forall>seg \<in> set (str_split (CHR '','') s). CHR '','' \<notin> set seg) \<and>
   parse_tags (Some s) =
     map str_strip (filter (\<lambda>seg. \<not> list_all isspace seg) (str_split (CHR '','') s)) \<and>
   (\<forall>t \<in> set (parse_tags (Some s)). t \<noteq> [] \<and> \<not> isspace (hd t) \<and> \<not> isspace (last t)) \<and>
   parse_tags None = [] \<and>
   parse_tags (Some ''lab, linux, '') = [''lab'', ''linux'']"
proof -
  have eq: "parse_tags (Some s) =
     map str_strip (filter (\<lambda>seg. \<not> list_all isspace seg) (str_split (CHR '','') s))"
    by (cases "s = []") (simp_all add: parse_tags_def str_strip_empty_iff)
  have ends: "t \<noteq> [] \<and> \<not> isspace (hd t) \<and> \<not> isspace (last t)" if "t \<in> set (parse_tags (Some s))" for t
  proof -
    have "t \<in> str_strip ` {seg \<in> set (str_split (CHR '','') s). \<not> list_all isspace seg}"
      using that by (simp only: eq set_map set_filter)
    then obtain seg where "t = str_strip seg" and "\<not> list_all isspace seg"
      by blast
    then have "t = str_strip seg" and "str_strip seg \<noteq> []"
      by (simp_all add: str_strip_empty_iff)
    then show ?thesis using str_strip_ends[of seg] by simp
  qed
  have ex: "parse_tags (Some ''lab, linux, '') = [''lab'', ''linux'']"
    by code_simp
  have pn: "parse_tags None = []" by (simp add: parse_tags_def)
  have nosep: "\<forall>seg \<in> set (str_split (CHR '','') s). CHR '','' \<notin> set seg"
    using str_split_no_sep by blast
  have "\<forall>t \<in> set (parse_tags (Some s)). t \<noteq> [] \<and> \<not> isspace (hd t) \<and> \<not> isspace (last t)"
    using ends by blast
  then show ?thesis
    using str_split_join[of "CHR '',''" s] nosep eq ex pn by blast
qed

theorem parse_tags_spec_witness:
  "parse_tags (Some '' a, ,b'') = [''a'', ''b''] \<and>
   str_join '','' (str_split (CHR '','') '' a, ,b'') = '' a, ,b'' \<and>
   list_all (\<lambda>t. t \<noteq> [] \<and> \<not> isspace (hd t) \<and> \<not> isspace (last t)) [''a'', ''b'']"
proof -
  have a: "parse_tags (Some '' a, ,b'') = [''a'', ''b'']" by code_simp
  have "\<forall>t \<in> set (parse_tags (Some '' a, ,b'')).
          t \<noteq> [] \<and> \<not> isspace (hd t) \<and> \<not> isspace (last t)"
    using parse_tags_spec[of "'' a, ,b''"] by blast
  then have "list_all (\<lambda>t. t \<noteq> [] \<and> \<not> isspace (hd t) \<and> \<not> isspace (last t)) [''a'', ''b'']"
    unfolding a by (simp only: list_all_iff)
  moreover have "str_join '','' (str_split (CHR '','') '' a, ,b'') = '' a, ,b''"
    using parse_tags_spec[of "'' a, ,b''"] by blast
  ultimately show ?thesis using a by blast
qed

section \<open>The JSON output and the uptime column\<close>

lemma example_collected:
  "collect_inventory example_host (Some [''lab'', ''linux'']) =
     ([PathExists ''/usr/bin/dpkg-query'', CheckOutput dpkg_command 10], Inr example_record)"
  by code_simp




lemma write_csv_text:
  assumes "human_bytes (total_bytes (memory d)) = Inr m"
    and "uptime_cell (uptime_seconds d) = Inr k"
  shows "write_csv h fr d out_path =
     Inr (dest_of out_path,
          text_write (linesep h) (csv_writerow header_names @ csv_writerow (row_fields fr d m k)))"
proof -
  have row: "csv_row d =
      Inr [(''timestamp'', CStr (timestamp d)),
           (''hostname'', CStr (hostname d)),
           (''fqdn'', CStr (fqdn d)),
           (''os_system'', CStr (system (os d))),
           (''os_release'', CStr (release (os d))),
           (''logical_cpus'', (case logical_cpus (cpu d) of None \<Rightarrow> CNone | Some k \<Rightarrow> CInt k)),
           (''mem_total'', CStr m),
           (''mem_used_pct'', CFloat (percent_used (memory d))),
           (''uptime_seconds'', CInt k),
           (''disk_count'', CInt (int (length (disks d)))),
           (''iface_count'', CInt (int (length (network d)))),
           (''tags'', CStr (str_join '','' (tags d)))]"
    using assms by (simp add: csv_row_def)
  show ?thesis
    unfolding write_csv_def row
    by (simp add: dict_writerow_def header_names_def row_fields_def split: option.split)
qed

lemma trunc_whole:
  fixes q :: rat
  defines "k \<equiv> (if 0 \<le> q then \<lfloor>q\<rfloor> else \<lceil>q\<rceil>)"
  shows "\<bar>of_int k\<bar> \<le> \<bar>q\<bar> \<and> \<bar>q\<bar> < \<bar>of_int k\<bar> + 1 \<and> (0 \<le> q \<longrightarrow> 0 \<le> k) \<and> (q \<le> 0 \<longrightarrow> k \<le> 0)"
proof (cases "0 \<le> q")
  case True
  then have k: "k = \<lfloor>q\<rfloor>" by (simp add: k_def)
  have f: "of_int \<lfloor>q\<rfloor> \<le> q" "q < of_int \<lfloor>q\<rfloor> + 1" by linarith+
  have nn: "0 \<le> \<lfloor>q\<rfloor>" using True by simp
  then have "(0::rat) \<le> of_int \<lfloor>q\<rfloor>" by simp
  moreover have "q \<le> 0 \<longrightarrow> \<lfloor>q\<rfloor> \<le> 0" using True by (auto simp: floor_le_iff)
  ultimately show ?thesis using True f nn unfolding k by (simp add: abs_if)
next
  case False
  then have k: "k = \<lceil>q\<rceil>" by (simp add: k_def)
  have f: "q \<le> of_int \<lceil>q\<rceil>" "of_int \<lceil>q\<rceil> < q + 1" by linarith+
  have np: "\<lceil>q\<rceil> \<le> 0" using False by (simp add: ceiling_le_iff)
  then have np': "of_int \<lceil>q\<rceil> \<le> (0::rat)" by simp
  have "\<bar>of_int \<lceil>q\<rceil>\<bar> = - (of_int \<lceil>q\<rceil> :: rat)" using np' by simp
  moreover have "\<bar>q\<bar> = - q" using False by simp
  ultimately show ?thesis using False f np unfolding k by simp
qed

text \<open>
  Claim C7, as amended. The uptime expression of \<open>write_csv\<close> turns a not-a-number into
  exactly \<open>0\<close> and a finite uptime \<open>q\<close> into the integer \<open>k\<close> that \<open>q\<close> truncates to (\<open>k\<close> has the
  sign of \<open>q\<close> and \<open>|k| \<le> |q| < |k| + 1\<close>), raising nothing in either case. The integer
  is what the export carries in its ninth column, \<open>uptime_seconds\<close>, and \<open>0\<close> is written
  as the text \<open>0\<close>.
\<close>

theorem uptime_whole_seconds:
  "uptime_cell NaN = Inr 0 \<and>
   (\<exists>k. uptime_cell (Finite q) = Inr k \<and>
        \<bar>of_int k\<bar> \<le> \<bar>q\<bar> \<and> \<bar>q\<bar> < \<bar>of_int k\<bar> + 1 \<and>
        (0 \<le> q \<longrightarrow> 0 \<le> k) \<and> (q \<le> 0 \<longrightarrow> k \<le> 0)) \<and>
   (human_bytes (total_bytes (memory d)) = Inr m \<and> uptime_cell (uptime_seconds d) = Inr k' \<longrightarrow>
      write_csv h fr d out_path =
        Inr (dest_of out_path,
             text_write (linesep h)
               (csv_writerow header_names @ csv_writerow (row_fields fr d m k')))) \<and>
   header_names ! 8 = ''uptime_seconds'' \<and>
   row_fields fr d m k' ! 8 = str_int k' \<and>
   str_int 0 = ''0''"
proof -
  have nan: "uptime_cell NaN = Inr 0" by (simp add: uptime_cell_def)
  have "uptime_cell (Finite q) = Inr (if 0 \<le> q then \<lfloor>q\<rfloor> else \<lceil>q\<rceil>)"
    by (simp add: uptime_cell_def)
  then have fin: "\<exists>k. uptime_cell (Finite q) = Inr k \<and>
        \<bar>of_int k\<bar> \<le> \<bar>q\<bar> \<and> \<bar>q\<bar> < \<bar>of_int k\<bar> + 1 \<and>
        (0 \<le> q \<longrightarrow> 0 \<le> k) \<and> (q \<le> 0 \<longrightarrow> k \<le> 0)"
    using trunc_whole[of q] by blast
  have h8: "header_names ! 8 = ''uptime_seconds''" by (simp add: header_names_def)
  have r8: "row_fields fr d m k' ! 8 = str_int k'" by (simp add: row_fields_def)
  have z: "str_int 0 = ''0''" by code_simp
  show ?thesis using nan fin write_csv_text[of d m k' h fr out_path] h8 r8 z by blast
qed

theorem uptime_whole_seconds_witness:
  "human_bytes (total_bytes (memory (example_record\<lparr>uptime_seconds := NaN\<rparr>))) = Inr ''16.00 GB'' \<and>
   uptime_cell (uptime_seconds (example_record\<lparr>uptime_seconds := NaN\<rparr>)) = Inr 0 \<and>
   write_csv example_host repr_whole (example_record\<lparr>uptime_seconds := NaN\<rparr>) None =
     Inr (Stdout,
          text_write [LF]
            (csv_writerow header_names @
             csv_writerow (row_fields repr_whole (example_record\<lparr>uptime_seconds := NaN\<rparr>) ''16.00 GB'' 0)))"
proof -
  let ?d = "example_record\<lparr>uptime_seconds := NaN\<rparr>"
  have hb: "human_bytes (total_bytes (memory ?d)) = Inr ''16.00 GB''"
    by code_simp
  have up: "uptime_cell (uptime_seconds ?d) = Inr 0"
    using uptime_whole_seconds[of 0 ?d "[]" 0 example_host repr_whole None] by simp
  have "dest_of None = Stdout" and "linesep example_host = [LF]"
    by (simp_all add: dest_of_def example_host_def)
  then show ?thesis
    using hb up uptime_whole_seconds[of 0 ?d "''16.00 GB''" 0 example_host repr_whole None]
    by simp
qed

text \<open>
  Claim C7 as stated fails at an infinite uptime, which is not a not-a-number: \<open>int\<close>
  raises OverflowError and nothing is written.
\<close>

theorem uptime_infinite:
  "write_csv example_host repr_whole (example_record\<lparr>uptime_seconds := PosInf\<rparr>) None =
     Inl OverflowError"
  by code_simp

section \<open>Properties of the disk enumeration\<close>

lemma enum_disks_readable:
  assumes "\<forall>p \<in> set ps. \<forall>e. du (part_mountpoint p) = Inl e \<longrightarrow> is_PermissionError e"
  shows "enum_disks du ps acc =
     Inr (acc @ concat (map (\<lambda>p. case du (part_mountpoint p) of
                                     Inr u \<Rightarrow> [disk_of p u] | Inl e \<Rightarrow> []) ps))"
  using assms
proof (induction ps arbitrary: acc)
  case Nil
  show ?case by simp
next
  case (Cons p ps)
  then have rest: "\<forall>p \<in> set ps. \<forall>e. du (part_mountpoint p) = Inl e \<longrightarrow> is_PermissionError e"
    by simp
  show ?case
  proof (cases "du (part_mountpoint p)")
    case (Inl e)
    then have "is_PermissionError e" using Cons.prems by simp
    then show ?thesis using Inl Cons.IH[OF rest] by simp
  next
    case (Inr u)
    then show ?thesis using Cons.IH[OF rest] by simp
  qed
qed

lemma enum_disks_fatal:
  assumes "\<forall>p \<in> set ps. \<forall>e. du (part_mountpoint p) = Inl e \<longrightarrow> is_PermissionError e"
    and "du (part_mountpoint q) = Inl e" and "\<not> is_PermissionError e"
  shows "enum_disks du (ps @ q # rest) acc = Inl e"
  using assms(1)
proof (induction ps arbitrary: acc)
  case Nil
  show ?case using assms(2,3) by simp
next
  case (Cons p ps)
  then have rest: "\<forall>p \<in> set ps. \<forall>e. du (part_mountpoint p) = Inl e \<longrightarrow> is_PermissionError e"
    by simp
  show ?case
  proof (cases "du (part_mountpoint p)")
    case (Inl e')
    then have "is_PermissionError e'" using Cons.prems by simp
    then show ?thesis using Inl Cons.IH[OF rest] by simp
  next
    case (Inr u)
    then show ?thesis using Cons.IH[OF rest] by simp
  qed
qed

lemma collect_inventory_disk_error:
  assumes "load_averages h = Inr l"
    and "enum_disks (disk_usage h) (disk_partitions h) [] = Inl e"
  shows "collect_inventory h tgs = ([], Inl e)"
  using assms by (cases l) (simp add: collect_inventory_def)

lemma main_collect_error:
  "collect_inventory h (Some (parse_tags (arg_tags a))) = (ev, Inl e) \<Longrightarrow>
   main h fr dumps a = (ev, Inl e)"
  by (simp add: main_def)

lemma collect_inventory_returns:
  assumes "load_averages h = Inr l"
    and "enum_disks (disk_usage h) (disk_partitions h) [] = Inr ds"
    and "count_packages h = (ev, Inr p)"
    and "get_uptime_seconds h = Inr up"
  shows "\<exists>d. collect_inventory h tgs = (ev, Inr d) \<and> packages d = p \<and> disks d = ds \<and>
           uptime_seconds d = up \<and>
           (loadavg_1m (cpu d), loadavg_5m (cpu d), loadavg_15m (cpu d)) = l"
  using assms by (cases l) (simp add: collect_inventory_def)

lemma collect_inventory_disks:
  assumes "collect_inventory h tgs = (ev, Inr d)"
  shows "enum_disks (disk_usage h) (disk_partitions h) [] = Inr (disks d)"
  using assms
  by (auto simp: collect_inventory_def split: sum.splits prod.splits)

text \<open>
  Claim C5. Let the usage query raise nothing but permission errors on the mounts \<open>ps\<close>.
  Then the enumeration of \<open>ps\<close> returns, in the order of \<open>ps\<close>, the entries of the mounts
  whose query answered, the refused mounts being left out. On a host with these mounts
  this list is the \<open>disks\<close> of every record that \<open>collect_inventory\<close> returns, and a record
  is returned whenever the load averages, the packages and the uptime were read. If the
  next mount \<open>q\<close> raises anything else, the enumeration of \<open>ps\<close>, \<open>q\<close> and any further mounts
  raises it, and once the load averages have been read so do \<open>collect_inventory\<close> and
  \<open>main\<close>.
\<close>

theorem disk_enumeration:
  assumes "\<forall>p \<in> set ps. \<forall>e. du (part_mountpoint p) = Inl e \<longrightarrow> is_PermissionError e"
  shows "enum_disks du ps [] =
           Inr (concat (map (\<lambda>p. case du (part_mountpoint p) of
                                    Inr u \<Rightarrow> [disk_of p u] | Inl e \<Rightarrow> []) ps)) \<and>
         (\<forall>h tgs ev d.
            disk_usage h = du \<and> disk_partitions h = ps \<and> collect_inventory h tgs = (ev, Inr d) \<longrightarrow>
            disks d = concat (map (\<lambda>p. case du (part_mountpoint p) of
                                          Inr u \<Rightarrow> [disk_of p u] | Inl e \<Rightarrow> []) ps)) \<and>
         (\<forall>h tgs l ev pk up.
            disk_usage h = du \<and> disk_partitions h = ps \<and> load_averages h = Inr l \<and>
            count_packages h = (ev, Inr pk) \<and> get_uptime_seconds h = Inr up \<longrightarrow>
            (\<exists>d. collect_inventory h tgs = (ev, Inr d) \<and>
                 disks d = concat (map (\<lambda>p. case du (part_mountpoint p) of
                                               Inr u \<Rightarrow> [disk_of p u] | Inl e \<Rightarrow> []) ps))) \<and>
         (du (part_mountpoint q) = Inl e \<and> \<not> is_PermissionError e \<longrightarrow>
            enum_disks du (ps @ q # rest) [] = Inl e \<and>
            (\<forall>h l a fr dumps.
               disk_usage h = du \<and> disk_partitions h = ps @ q # rest \<and> load_averages h = Inr l \<longrightarrow>
               (\<forall>tgs. collect_inventory h tgs = ([], Inl e)) \<and> main h fr dumps a = ([], Inl e)))"
proof -
  let ?readable = "concat (map (\<lambda>p. case du (part_mountpoint p) of
                                    Inr u \<Rightarrow> [disk_of p u] | Inl e \<Rightarrow> []) ps)"
  have ok: "enum_disks du ps [] = Inr ?readable"
    using enum_disks_readable[OF assms, of "[]"] by simp
  have in_record: "disks d = ?readable"
    if "disk_usage h = du" "disk_partitions h = ps" "collect_inventory h tgs = (ev, Inr d)"
    for h tgs ev d
    using collect_inventory_disks[OF that(3)] ok that(1,2) by simp
  have returned: "\<exists>d. collect_inventory h tgs = (ev, Inr d) \<and> disks d = ?readable"
    if "disk_usage h = du" "disk_partitions h = ps" "load_averages h = Inr l"
       "count_packages h = (ev, Inr pk)" "get_uptime_seconds h = Inr up"
    for h tgs l ev pk up
  proof -
    have "enum_disks (disk_usage h) (disk_partitions h) [] = Inr ?readable"
      using ok that(1,2) by simp
    then show ?thesis
      using collect_inventory_returns[OF that(3) _ that(4,5), of ?readable tgs] by blast
  qed
  have bad: "enum_disks du (ps @ q # rest) [] = Inl e \<and>
            (\<forall>h l a fr dumps.
               disk_usage h = du \<and> disk_partitions h = ps @ q # rest \<and> load_averages h = Inr l \<longrightarrow>
               (\<forall>tgs. collect_inventory h tgs = ([], Inl e)) \<and> main h fr dumps a = ([], Inl e))"
    if q: "du (part_mountpoint q) = Inl e" and e: "\<not> is_PermissionError e"
  proof -
    have f: "enum_disks du (ps @ q # rest) [] = Inl e"
      by (rule enum_disks_fatal[OF assms q e])
    have "(\<forall>tgs. collect_inventory h tgs = ([], Inl e)) \<and> main h fr dumps a = ([], Inl e)"
      if h: "disk_usage h = du" "disk_partitions h = ps @ q # rest" "load_averages h = Inr l"
      for h l a fr dumps
    proof -
      have c: "collect_inventory h tgs = ([], Inl e)" for tgs
        using f h by (intro collect_inventory_disk_error[of h l]) simp_all
      then show ?thesis using main_collect_error[of h a "[]" e] by simp
    qed
    then show ?thesis using f by blast
  qed
  show ?thesis using ok in_record returned bad by blast
qed

theorem disk_enumeration_witness:
  "enum_disks (disk_usage example_host) (disk_partitions example_host) [] =
     Inr [\<lparr>device = ''/dev/sda1'', fstype = ''ext4'', disk_total_bytes = 1000,
           disk_used_bytes = 250, disk_free_bytes = 750, disk_percent_used = Finite 25\<rparr>,
          \<lparr>device = ''/dev/sdc1'', fstype = ''xfs'', disk_total_bytes = 4000,
           disk_used_bytes = 3000, disk_free_bytes = 1000, disk_percent_used = Finite 75\<rparr>] \<and>
   collect_inventory example_host (Some [''lab'', ''linux'']) =
     ([PathExists ''/usr/bin/dpkg-query'', CheckOutput dpkg_command 10], Inr example_record) \<and>
   disks example_record =
     [\<lparr>device = ''/dev/sda1'', fstype = ''ext4'', disk_total_bytes = 1000,
       disk_used_bytes = 250, disk_free_bytes = 750, disk_percent_used = Finite 25\<rparr>,
      \<lparr>device = ''/dev/sdc1'', fstype = ''xfs'', disk_total_bytes = 4000,
       disk_used_bytes = 3000, disk_free_bytes = 1000, disk_percent_used = Finite 75\<rparr>] \<and>
   enum_disks (disk_usage example_host)
     (disk_partitions example_host @
      \<lparr>part_device = ''/dev/sdd1'', part_mountpoint = ''/gone'', part_fstype = ''ext4''\<rparr> # []) [] =
     Inl FileNotFoundError"
proof -
  let ?q = "\<lparr>part_device = ''/dev/sdd1'', part_mountpoint = ''/gone'', part_fstype = ''ext4''\<rparr>"
  have pre: "\<forall>p \<in> set (disk_partitions example_host).
          \<forall>e. disk_usage example_host (part_mountpoint p) = Inl e \<longrightarrow> is_PermissionError e"
    by (simp add: example_host_def)
  have q: "disk_usage example_host (part_mountpoint ?q) = Inl FileNotFoundError \<and>
           \<not> is_PermissionError FileNotFoundError"
    by (simp add: example_host_def)
  have r: "concat (map (\<lambda>p. case disk_usage example_host (part_mountpoint p) of
                                    Inr u \<Rightarrow> [disk_of p u] | Inl e \<Rightarrow> []) (disk_partitions example_host)) =
     [\<lparr>device = ''/dev/sda1'', fstype = ''ext4'', disk_total_bytes = 1000,
           disk_used_bytes = 250, disk_free_bytes = 750, disk_percent_used = Finite 25\<rparr>,
          \<lparr>device = ''/dev/sdc1'', fstype = ''xfs'', disk_total_bytes = 4000,
           disk_used_bytes = 3000, disk_free_bytes = 1000, disk_percent_used = Finite 75\<rparr>]"
    by (simp add: example_host_def disk_of_def)
  show ?thesis
    using disk_enumeration[OF pre, of ?q FileNotFoundError "[]"] q example_collected
    unfolding r by blast
qed

section \<open>Properties of the network enumeration\<close>

lemma add_addrs_keeps:
  "iface (add_addrs entry as) = iface entry \<and> is_up (add_addrs entry as) = is_up entry"
  by (induction as arbitrary: entry) simp_all

lemma enum_nics_acc:
  "enum_nics stats addrs acc = acc @ map (\<lambda>(ifname, addr_list). nic_of stats ifname addr_list) addrs"
  by (induction addrs arbitrary: acc) auto

text \<open>
  Claim C8. The network entries are those of the address table, in its order, and the
  \<open>is_up\<close> of an interface is the up/down state that the statistics table holds under its
  name, or the absent marker when the table has no such name. Every collected record
  carries exactly these entries.
\<close>

theorem is_up_from_stats:
  "map (\<lambda>n. (iface n, is_up n)) (enum_nics stats addrs []) =
     map (\<lambda>(ifname, addr_list).
            (ifname, case stats ifname of Some st \<Rightarrow> Some (isup st) | None \<Rightarrow> None)) addrs \<and>
   (collect_inventory h tgs = (ev, Inr d) \<longrightarrow>
      network d = enum_nics (net_if_stats h) (net_if_addrs h) [])"
proof -
  have "map (\<lambda>n. (iface n, is_up n)) (enum_nics stats addrs []) =
     map (\<lambda>(ifname, addr_list).
            (ifname, case stats ifname of Some st \<Rightarrow> Some (isup st) | None \<Rightarrow> None)) addrs"
    by (simp add: enum_nics_acc nic_of_def add_addrs_keeps split_def)
  moreover have "network d = enum_nics (net_if_stats h) (net_if_addrs h) []"
    if "collect_inventory h tgs = (ev, Inr d)"
    using that
    by (auto simp: collect_inventory_def split: sum.splits prod.splits)
  ultimately show ?thesis by blast
qed

theorem is_up_from_stats_witness:
  "collect_inventory example_host (Some [''lab'', ''linux'']) =
     ([PathExists ''/usr/bin/dpkg-query'', CheckOutput dpkg_command 10], Inr example_record) \<and>
   map (\<lambda>n. (iface n, is_up n)) (network example_record) =
     [(''lo'', Some True), (''eth0'', Some False), (''tun0'', None)]"
proof -
  note t = is_up_from_stats[of "net_if_stats example_host" "net_if_addrs example_host"
        example_host "Some [''lab'', ''linux'']"
        "[PathExists ''/usr/bin/dpkg-query'', CheckOutput dpkg_command 10]" example_record]
  have n: "network example_record =
      enum_nics (net_if_stats example_host) (net_if_addrs example_host) []"
    using t example_collected by blast
  have "map (\<lambda>n. (iface n, is_up n)) (network example_record) =
     map (\<lambda>(ifname, addr_list).
            (ifname, case net_if_stats example_host ifname of
                       Some st \<Rightarrow> Some (isup st) | None \<Rightarrow> None)) (net_if_addrs example_host)"
    unfolding n using t by blast
  also have "\<dots> = [(''lo'', Some True), (''eth0'', Some False), (''tun0'', None)]"
    by (simp add: example_host_def)
  finally show ?thesis using example_collected by blast
qed

section \<open>Properties of the package counter\<close>

lemma count_packages_cases:
  "count_packages h =
     (if str_lower (uname_system (uname h)) \<noteq> ''linux'' then ([], Inr None)
      else if path_exists h ''/usr/bin/dpkg-query'' then
        ([PathExists ''/usr/bin/dpkg-query'', CheckOutput dpkg_command 10],
         case check_output h dpkg_command 10 of
           Inl e \<Rightarrow> if is_Exception e then Inr None else Inl e
         | Inr out \<Rightarrow> Inr (Some \<lparr>manager = ''dpkg'', count = count_lines out\<rparr>))
      else if path_exists h ''/usr/bin/rpm'' then
        ([PathExists ''/usr/bin/dpkg-query'', PathExists ''/usr/bin/rpm'',
          CheckOutput rpm_command 10],
         case check_output h rpm_command 10 of
           Inl e \<Rightarrow> if is_Exception e then Inr None else Inl e
         | Inr out \<Rightarrow> Inr (Some \<lparr>manager = ''rpm'', count = count_lines out\<rparr>))
      else ([PathExists ''/usr/bin/dpkg-query'', PathExists ''/usr/bin/rpm''], Inr None))"
  by (simp add: count_packages_def probe_managers_def query_manager_def split: sum.splits)




section \<open>Properties of the load averages\<close>

lemma count_packages_returns:
  assumes "\<forall>c e. check_output h c 10 = Inl e \<longrightarrow> is_Exception e"
  shows "\<exists>ev p. count_packages h = (ev, Inr p)"
  using assms by (auto simp: count_packages_cases split: sum.splits)

text \<open>
  Claim C9. Let reading the load averages raise AttributeError (the platform has no such
  call) or an OSError. Then the three load averages are the absent marker, in the triple
  read and in every record collected. Collection goes on as on a host that has load
  averages: same events, same error if a later probe raises one, and the same record but
  for the three fields. When the disk usage queries raise nothing but permission errors
  and the package query and the boot time nothing but an \<open>Exception\<close>, a record is returned.
\<close>

theorem loadavg_unsupported:
  assumes "getloadavg h = Inl e" and "e = AttributeError \<or> is_OSError e"
  shows "load_averages h = Inr (None, None, None) \<and>
         (\<forall>ev d. collect_inventory h tgs = (ev, Inr d) \<longrightarrow>
            loadavg_1m (cpu d) = None \<and> loadavg_5m (cpu d) = None \<and> loadavg_15m (cpu d) = None) \<and>
         collect_inventory h tgs =
           (case collect_inventory (h\<lparr>getloadavg := Inr l\<rparr>) tgs of
              (ev, r) \<Rightarrow>
                (ev, map_sum id
                       (\<lambda>d. d\<lparr>cpu := (cpu d)\<lparr>loadavg_1m := None, loadavg_5m := None,
                                           loadavg_15m := None\<rparr>\<rparr>) r)) \<and>
         ((\<forall>p \<in> set (disk_partitions h).
              \<forall>e'. disk_usage h (part_mountpoint p) = Inl e' \<longrightarrow> is_PermissionError e') \<and>
          (\<forall>c e'. check_output h c 10 = Inl e' \<longrightarrow> is_Exception e') \<and>
          (\<forall>e'. boot_time h = Inl e' \<longrightarrow> is_Exception e') \<longrightarrow>
          (\<exists>ev d. collect_inventory h tgs = (ev, Inr d)))"
proof -
  have la: "load_averages h = Inr (None, None, None)"
    using assms by (auto simp: load_averages_def)
  have fields: "loadavg_1m (cpu d) = None \<and> loadavg_5m (cpu d) = None \<and> loadavg_15m (cpu d) = None"
    if "collect_inventory h tgs = (ev, Inr d)" for ev d
    using that la by (auto simp: collect_inventory_def split: sum.splits prod.splits)
  obtain l1 l5 l15 where l: "l = (l1, l5, l15)" by (cases l)
  have la': "load_averages (h\<lparr>getloadavg := Inr l\<rparr>) = Inr (Some l1, Some l5, Some l15)"
    by (simp add: load_averages_def l)
  have same: "collect_inventory h tgs =
           (case collect_inventory (h\<lparr>getloadavg := Inr l\<rparr>) tgs of
              (ev, r) \<Rightarrow>
                (ev, map_sum id
                       (\<lambda>d. d\<lparr>cpu := (cpu d)\<lparr>loadavg_1m := None, loadavg_5m := None,
                                           loadavg_15m := None\<rparr>\<rparr>) r))"
    unfolding collect_inventory_def la la'
    by (simp add: count_packages_cases get_uptime_seconds_def split: sum.splits)
  have returns: "\<exists>ev d. collect_inventory h tgs = (ev, Inr d)"
    if disks: "\<forall>p \<in> set (disk_partitions h).
              \<forall>e'. disk_usage h (part_mountpoint p) = Inl e' \<longrightarrow> is_PermissionError e'"
      and pk: "\<forall>c e'. check_output h c 10 = Inl e' \<longrightarrow> is_Exception e'"
      and bt: "\<forall>e'. boot_time h = Inl e' \<longrightarrow> is_Exception e'"
  proof -
    obtain ds where ds: "enum_disks (disk_usage h) (disk_partitions h) [] = Inr ds"
      using enum_disks_readable[OF disks, of "[]"] by blast
    obtain ev p where p: "count_packages h = (ev, Inr p)"
      using count_packages_returns[OF pk] by blast
    obtain up where up: "get_uptime_seconds h = Inr up"
      using bt by (cases "boot_time h") (auto simp: get_uptime_seconds_def)
    show ?thesis using collect_inventory_returns[OF la ds p up, of tgs] by blast
  qed
  show ?thesis using la fields same returns by blast
qed

theorem loadavg_unsupported_witness:
  "collect_inventory (example_host\<lparr>getloadavg := Inl AttributeError\<rparr>) (Some [''lab'', ''linux'']) =
     ([PathExists ''/usr/bin/dpkg-query'', CheckOutput dpkg_command 10],
      Inr (example_record\<lparr>cpu := (cpu example_record)\<lparr>loadavg_1m := None, loadavg_5m := None,
                                                   loadavg_15m := None\<rparr>\<rparr>))"
proof -
  let ?h = "example_host\<lparr>getloadavg := Inl AttributeError\<rparr>"
  have g: "getloadavg ?h = Inl AttributeError" by simp
  have restored: "(?h)\<lparr>getloadavg := Inr (Finite (1 / 2), Finite (1 / 4), Finite (1 / 8))\<rparr> = example_host"
    by (simp add: example_host_def)
  have "collect_inventory ?h (Some [''lab'', ''linux'']) =
           (case collect_inventory ((?h)\<lparr>getloadavg := Inr (Finite (1 / 2), Finite (1 / 4), Finite (1 / 8))\<rparr>)
                   (Some [''lab'', ''linux'']) of
              (ev, r) \<Rightarrow>
                (ev, map_sum id
                       (\<lambda>d. d\<lparr>cpu := (cpu d)\<lparr>loadavg_1m := None, loadavg_5m := None,
                                           loadavg_15m := None\<rparr>\<rparr>) r))"
    using loadavg_unsupported[OF g, of "Some [''lab'', ''linux'']"
        "(Finite (1 / 2), Finite (1 / 4), Finite (1 / 8))"] by blast
  then show ?thesis unfolding restored example_collected by simp
qed

section \<open>Properties of the CSV export\<close>

lemma text_write_posix: "text_write [LF] s = s"
  by (induction s) (simp_all add: text_write_def)

lemma csv_read_plain:
  assumes "\<not> list_ex csv_special s"
  shows "csv_read False cur fs (s @ rest) = csv_read False (rev s @ cur) fs rest"
  using assms
proof (induction s arbitrary: cur)
  case Nil
  show ?case by simp
next
  case (Cons c s)
  from Cons.prems have sp: "\<not> csv_special c" and s: "\<not> list_ex csv_special s"
    by simp_all
  from sp have c: "c \<noteq> DQ" "c \<noteq> CHR '',''" "c \<noteq> CR" "c \<noteq> LF"
    by (simp_all add: csv_special_def)
  have "csv_read False cur fs ((c # s) @ rest) = csv_read False (c # cur) fs (s @ rest)"
    using c by simp
  also have "\<dots> = csv_read False (rev s @ c # cur) fs rest"
    by (rule Cons.IH[OF s])
  finally show ?case by simp
qed

lemma csv_read_quoted:
  assumes "rest = [] \<or> hd rest \<noteq> DQ"
  shows "csv_read True cur fs (csv_escape s @ DQ # rest) = csv_read False (rev s @ cur) fs rest"
proof (induction s arbitrary: cur)
  case Nil
  show ?case using assms by (cases rest) (simp_all add: csv_escape_def)
next
  case (Cons c s)
  show ?case
  proof (cases "c = DQ")
    case True
    have "csv_read True cur fs (csv_escape (c # s) @ DQ # rest) =
          csv_read True (DQ # cur) fs (csv_escape s @ DQ # rest)"
      using True by (simp add: csv_escape_def)
    also have "\<dots> = csv_read False (rev s @ DQ # cur) fs rest" by (rule Cons.IH)
    finally show ?thesis using True by simp
  next
    case False
    have "csv_read True cur fs (csv_escape (c # s) @ DQ # rest) =
          csv_read True (c # cur) fs (csv_escape s @ DQ # rest)"
      using False by (simp add: csv_escape_def)
    also have "\<dots> = csv_read False (rev s @ c # cur) fs rest" by (rule Cons.IH)
    finally show ?thesis by simp
  qed
qed

lemma csv_read_field:
  assumes "rest = [] \<or> hd rest \<noteq> DQ"
  shows "csv_read False [] fs (csv_field s @ rest) = csv_read False (rev s) fs rest"
proof (cases "list_ex csv_special s")
  case True
  have "csv_read False [] fs (csv_field s @ rest) = csv_read True [] fs (csv_escape s @ DQ # rest)"
    using True by (simp add: csv_field_def)
  then show ?thesis using csv_read_quoted[OF assms, of "[]" fs s] by simp
next
  case False
  then show ?thesis using csv_read_plain[OF False, of "[]" fs rest] by (simp add: csv_field_def)
qed

lemma csv_read_row:
  assumes "xs \<noteq> []" and "fs \<noteq> [] \<or> xs \<noteq> [[]]"
  shows "csv_read False [] fs (str_join '','' (map csv_field xs) @ CR # LF # rest) =
           (rev fs @ xs) # csv_read False [] [] rest"
  using assms
proof (induction xs arbitrary: fs)
  case Nil
  then show ?case by simp
next
  case (Cons x xs)
  show ?case
  proof (cases xs)
    case Nil
    have "csv_read False [] fs (csv_field x @ CR # LF # rest) =
          csv_read False (rev x) fs (CR # LF # rest)"
      by (rule csv_read_field) simp
    then show ?thesis using Nil Cons.prems by (auto simp: record_of_def)
  next
    case (Cons y ys)
    have "csv_read False [] fs (str_join '','' (map csv_field (x # xs)) @ CR # LF # rest) =
          csv_read False [] fs
            (csv_field x @ CHR '','' # (str_join '','' (map csv_field xs) @ CR # LF # rest))"
      using Cons by simp
    also have "\<dots> = csv_read False (rev x) fs
            (CHR '','' # (str_join '','' (map csv_field xs) @ CR # LF # rest))"
      by (rule csv_read_field) simp
    also have "\<dots> = csv_read False [] (x # fs) (str_join '','' (map csv_field xs) @ CR # LF # rest)"
      by simp
    also have "\<dots> = (rev (x # fs) @ xs) # csv_read False [] [] rest"
      using Cons by (intro Cons.IH) simp_all
    finally show ?thesis by simp
  qed
qed

lemma csv_records_two_rows:
  assumes "xs \<noteq> []" "xs \<noteq> [[]]" "ys \<noteq> []" "ys \<noteq> [[]]"
  shows "csv_records (csv_writerow xs @ csv_writerow ys) = [xs, ys]"
proof -
  have "csv_records (csv_writerow xs @ csv_writerow ys) =
        csv_read False [] [] (str_join '','' (map csv_field xs) @ CR # LF #
           (str_join '','' (map csv_field ys) @ CR # LF # []))"
    using assms by (simp add: csv_records_def csv_writerow_def)
  also have "\<dots> = xs # csv_read False [] [] (str_join '','' (map csv_field ys) @ CR # LF # [])"
    using csv_read_row[OF assms(1), of "[]"] assms(2) by simp
  also have "\<dots> = xs # ys # csv_read False [] [] []"
    using csv_read_row[OF assms(3), of "[]" "[]"] assms(4) by simp
  finally show ?thesis by simp
qed

lemma write_csv_posix:
  assumes "linesep h = [LF]"
    and "human_bytes (total_bytes (memory d)) = Inr m"
    and "uptime_cell (uptime_seconds d) = Inr k"
  shows "\<exists>t. write_csv h fr d out_path = Inr (dest_of out_path, t) \<and>
             csv_records t = [header_names, row_fields fr d m k]"
proof -
  have "csv_records (csv_writerow header_names @ csv_writerow (row_fields fr d m k)) =
        [header_names, row_fields fr d m k]"
    by (rule csv_records_two_rows) (simp_all add: header_names_def row_fields_def)
  then show ?thesis
    using write_csv_text[OF assms(2,3), of h fr out_path] assms(1)
    by (simp add: text_write_posix)
qed

lemma collected_uptime:
  assumes "collect_inventory h tgs = (ev, Inr d)"
  shows "\<exists>k. uptime_cell (uptime_seconds d) = Inr k"
proof -
  have "get_uptime_seconds h = Inr (uptime_seconds d)"
    using assms by (auto simp: collect_inventory_def split: sum.splits prod.splits)
  then have "uptime_seconds d = NaN \<or> (\<exists>q. uptime_seconds d = Finite q)"
    by (cases "boot_time h") (auto simp: get_uptime_seconds_def split: if_splits dest: sym)
  then show ?thesis by (auto simp: uptime_cell_def)
qed

text \<open>
  Where the line separator is \<open>\n\<close> the export of every collected record reads back as
  two records of twelve fields, the header and the data row, whatever the fields hold;
  the memory size has to be one that \<open>float\<close> converts.
\<close>

lemma csv_export_posix:
  assumes "linesep h = [LF]"
    and "collect_inventory h tgs = (ev, Inr d)"
    and "0 \<le> mem_total (virtual_memory h)"
    and "mem_total (virtual_memory h) < 2 ^ 1024 - 2 ^ 970"
  shows "\<exists>t. write_csv h fr d out_path = Inr (dest_of out_path, t) \<and>
             length (csv_records t) = 2 \<and> list_all (\<lambda>r. length r = 12) (csv_records t)"
proof -
  have "total_bytes (memory d) = mem_total (virtual_memory h)"
    using assms(2) by (auto simp: collect_inventory_def split: sum.splits prod.splits)
  then obtain m where m: "human_bytes (total_bytes (memory d)) = Inr m"
    using human_bytes_returns[OF assms(3,4)] by auto
  obtain k where k: "uptime_cell (uptime_seconds d) = Inr k"
    using collected_uptime[OF assms(2)] by blast
  obtain t where t: "write_csv h fr d out_path = Inr (dest_of out_path, t)"
      "csv_records t = [header_names, row_fields fr d m k]"
    using write_csv_posix[OF assms(1) m k] by blast
  show ?thesis using t by (simp add: header_names_def row_fields_def)
qed

text \<open>
  Claim C1 on a Windows host. With \<open>--format csv --tags lab,linux\<close> the record is collected
  and exported, but the text stream turns the \<open>\n\<close> of every row end into \<open>\r\n\<close>, so each
  row ends with \<open>\r\r\n\<close>: the export reads as four records, the second and the fourth
  without fields, and \<open>splitlines\<close> finds four lines in it.
\<close>

theorem csv_export_crlf:
  "collect_inventory windows_host (Some [''lab'', ''linux'']) = ([], Inr windows_record) \<and>
   main windows_host repr_whole dumps
     \<lparr>arg_format = Csv, arg_out = None, arg_pretty = False, arg_tags = Some ''lab,linux''\<rparr> =
     ([], Inr (Stdout, windows_csv)) \<and>
   map length (csv_records windows_csv) = [12, 0, 12, 0] \<and>
   length (str_splitlines windows_csv) = 4"
  by code_simp

end
